theory Spec2Isabelle
  imports Complex_Main "HOL-Library.Word" "HOL-Library.Log_Nat" "HOL-Library.AList"
begin

unbundle bit_operations_syntax

text \<open>
  A shallow embedding of the CAN sniffer: the decode library \<open>decoder.py\<close> (byte field
  extraction, the decode routines, the registry and \<open>DataDecoder\<close>) and the frame pipeline
  of \<open>V3.py\<close> (\<open>CANsnifferUI.parse_frame\<close> with its statistics table). Every raise of
  the Python code is a value \<open>Inl e\<close> of the model, every \<open>except\<close> a case distinction.
\<close>

section \<open>Python runtime values used by the decoder\<close>

text \<open>
  Python's unbounded integers are \<^typ>\<open>int\<close>. A Python \<open>str\<close> is a \<^typ>\<open>string\<close>
  whose characters are read as the code points 0..255. A Python \<open>float\<close> is the real
  number it denotes; every arithmetic operation rounds its exact result to the nearest
  number with a 53-bit significand, ties to even (\<open>rd\<close>). The rounding is the one of
  IEEE binary64 for results of magnitude between \<open>2^-1022\<close> and \<open>2^1024\<close>, which is where
  the products of a payload integer with the scale constants and the reciprocals of
  clock differences live; conversion of an integer checks the upper bound.
\<close>

datatype pyexn =
    IndexError
  | ValueError_literal string
  | ValueError_bytes
  | ValueError_digits
  | OverflowError

datatype pyval = VInt int | VFloat real | VStr string | VBool bool

type_synonym pydict = "(string \<times> pyval) list"

subsection \<open>Text of integers\<close>

function digits_of :: "int \<Rightarrow> int \<Rightarrow> string" where
  "digits_of b n =
     (if b < 2 \<or> n < b then [''0123456789abcdef'' ! nat n]
      else digits_of b (n div b) @ [''0123456789abcdef'' ! nat (n mod b)])"
  by pat_completeness auto
termination
  by (relation "measure (\<lambda>(b, n). nat n)") (auto simp: int_div_less_self)

text \<open>
  The decimal text of an integer, as \<open>str\<close> and an f-string give it. CPython (3.11 and
  later) raises \<open>ValueError\<close> when the text would have more than
  \<open>sys.get_int_max_str_digits()\<close> digits, the sign not counted; the limit is 4300 and the
  repository never changes it. Texts in base 16 (\<open>hex\<close>, \<open>int(x, 16)\<close>) have no limit.
\<close>

definition max_str_digits :: nat where
  "max_str_digits = 4300"

definition str_int :: "int \<Rightarrow> pyexn + string" where
  "str_int n =
     (if 10 ^ max_str_digits \<le> \<bar>n\<bar> then Inl ValueError_digits
      else Inr (if n < 0 then ''-'' @ digits_of 10 (- n) else digits_of 10 n))"

definition hex :: "int \<Rightarrow> string" where
  "hex n = (if n < 0 then ''-0x'' @ digits_of 16 (- n) else ''0x'' @ digits_of 16 n)"

definition hex2 :: "nat \<Rightarrow> string" where
  "hex2 n = [''0123456789abcdef'' ! (n div 16 mod 16), ''0123456789abcdef'' ! (n mod 16)]"

subsection \<open>Floating point\<close>

definition pow2 :: "int \<Rightarrow> real" where
  "pow2 e = (if 0 \<le> e then 2 ^ nat e else 1 / 2 ^ nat (- e))"

definition rne :: "real \<Rightarrow> int" where
  "rne x =
     (let f = \<lfloor>x\<rfloor>; r = x - of_int f
      in if r < 1 / 2 then f else if 1 / 2 < r then f + 1 else if even f then f else f + 1)"

definition ilog2 :: "real \<Rightarrow> int" where
  "ilog2 x = (if 1 \<le> x then bitlen \<lfloor>x\<rfloor> - 1 else - bitlen (\<lceil>1 / x\<rceil> - 1))"

definition rd :: "real \<Rightarrow> real" where
  "rd x = (if x = 0 then 0
           else let e = ilog2 \<bar>x\<bar> - 52 in of_int (rne (x / pow2 e)) * pow2 e)"

definition float_of_int :: "int \<Rightarrow> pyexn + real" where
  "float_of_int n =
     (let r = rd (of_int n) in if 2 ^ 1024 \<le> \<bar>r\<bar> then Inl OverflowError else Inr r)"

definition fmul :: "real \<Rightarrow> real \<Rightarrow> real" where
  "fmul a b = rd (a * b)"

definition fsub :: "real \<Rightarrow> real \<Rightarrow> real" where
  "fsub a b = rd (a - b)"

definition fdiv :: "real \<Rightarrow> real \<Rightarrow> real" where
  "fdiv a b = rd (a / b)"

text \<open>\<open>int * float\<close>: the integer is converted first, which may raise.\<close>

definition int_mul_float :: "int \<Rightarrow> real \<Rightarrow> pyexn + real" where
  "int_mul_float n c = (case float_of_int n of Inl e \<Rightarrow> Inl e | Inr f \<Rightarrow> Inr (fmul f c))"

text \<open>The format specification \<open>.kf\<close>: the exact value rounded to \<open>k\<close> decimals, ties to even.\<close>

definition fmt_fixed :: "nat \<Rightarrow> real \<Rightarrow> string" where
  "fmt_fixed k x =
     (let ds = digits_of 10 (rne (\<bar>x\<bar> * 10 ^ k));
          ds' = replicate (k + 1 - length ds) CHR ''0'' @ ds
      in (if x < 0 then ''-'' else '''') @ take (length ds' - k) ds'
         @ (if k = 0 then '''' else ''.'' @ drop (length ds' - k) ds'))"

section \<open>Builtins on strings\<close>

subsection \<open>\<open>int(x, 16)\<close>\<close>

text \<open>
  The builtin strips white space at both ends, reads an optional sign and an optional
  \<open>0x\<close> or \<open>0X\<close> prefix (after which one underscore may follow), and then needs at least
  one hexadecimal digit; single underscores may separate digits. Everything else raises
  \<open>ValueError\<close>, whose text quotes the argument.
\<close>

definition int_space :: "char \<Rightarrow> bool" where
  "int_space c = (of_char c \<in> {9, 10, 11, 12, 13, 32, 133, 160 :: nat})"

definition strip :: "string \<Rightarrow> string" where
  "strip s = rev (dropWhile int_space (rev (dropWhile int_space s)))"

definition hex_digit :: "char \<Rightarrow> int option" where
  "hex_digit c =
     (let n = of_char c :: nat
      in if 48 \<le> n \<and> n \<le> 57 then Some (int n - 48)
         else if 97 \<le> n \<and> n \<le> 102 then Some (int n - 87)
         else if 65 \<le> n \<and> n \<le> 70 then Some (int n - 55)
         else None)"

fun scan_digits :: "int \<Rightarrow> bool \<Rightarrow> string \<Rightarrow> int option" where
  "scan_digits acc prev_us [] = (if prev_us then None else Some acc)"
| "scan_digits acc prev_us (c # cs) =
     (if c = CHR ''_'' then (if prev_us then None else scan_digits acc True cs)
      else case hex_digit c of
             None \<Rightarrow> None
           | Some d \<Rightarrow> scan_digits (16 * acc + d) False cs)"

definition hex_body :: "string \<Rightarrow> int option" where
  "hex_body s = (case s of [] \<Rightarrow> None
                 | c # cs \<Rightarrow> if c = CHR ''_'' then None else scan_digits 0 False s)"

fun skip_sign :: "string \<Rightarrow> int \<times> string" where
  "skip_sign [] = (1, [])"
| "skip_sign (c # cs) =
     (if c = CHR ''+'' then (1, cs) else if c = CHR ''-'' then (- 1, cs) else (1, c # cs))"

fun skip_prefix :: "string \<Rightarrow> string" where
  "skip_prefix (c # x # cs) =
     (if c = CHR ''0'' \<and> (x = CHR ''x'' \<or> x = CHR ''X'')
      then (case cs of [] \<Rightarrow> [] | u # us \<Rightarrow> if u = CHR ''_'' then us else cs)
      else c # x # cs)"
| "skip_prefix s = s"

subsection \<open>\<open>repr\<close> of a string and the text of an exception\<close>

definition repr_char :: "char \<Rightarrow> char \<Rightarrow> string" where
  "repr_char q c =
     (let n = of_char c :: nat
      in if c = q \<or> n = 92 then [CHR 0x5C, c]
         else if n = 9 then [CHR 0x5C, CHR ''t'']
         else if n = 10 then [CHR 0x5C, CHR ''n'']
         else if n = 13 then [CHR 0x5C, CHR ''r'']
         else if n < 32 \<or> (127 \<le> n \<and> n \<le> 160) \<or> n = 173 then [CHR 0x5C, CHR ''x''] @ hex2 n
         else [c])"

definition repr_str :: "string \<Rightarrow> string" where
  "repr_str s =
     (let q = (if CHR 0x27 \<in> set s \<and> CHR 0x22 \<notin> set s then CHR 0x22 else CHR 0x27)
      in [q] @ concat (map (repr_char q) s) @ [q])"

definition str_exn :: "pyexn \<Rightarrow> string" where
  "str_exn e =
     (case e of
        IndexError \<Rightarrow> ''list index out of range''
      | ValueError_literal s \<Rightarrow>
          ''invalid literal for int() with base 16: '' @ take 200 (repr_str s)
      | ValueError_bytes \<Rightarrow> ''bytes must be in range(0, 256)''
      | ValueError_digits \<Rightarrow>
          ''Exceeds the limit (4300 digits) for integer string conversion; ''
          @ ''use sys.set_int_max_str_digits() to increase the limit''
      | OverflowError \<Rightarrow> ''int too large to convert to float'')"

definition int16 :: "string \<Rightarrow> pyexn + int" where
  "int16 s =
     (let (sg, u) = skip_sign (strip s)
      in case hex_body (skip_prefix u) of
           None \<Rightarrow> Inl (ValueError_literal s)
         | Some n \<Rightarrow> Inr (sg * n))"

text \<open>The list comprehension \<open>[int(x, 16) for x in data_bytes_list]\<close>: the first bad token raises.\<close>

fun ints16 :: "string list \<Rightarrow> pyexn + int list" where
  "ints16 [] = Inr []"
| "ints16 (x # xs) =
     (case int16 x of
        Inl e \<Rightarrow> Inl e
      | Inr n \<Rightarrow> (case ints16 xs of Inl e \<Rightarrow> Inl e | Inr ns \<Rightarrow> Inr (n # ns)))"

text \<open>\<open>bytes(data).hex()\<close>: every element has to be a byte.\<close>

definition all_bytes :: "int list \<Rightarrow> bool" where
  "all_bytes data = list_all (\<lambda>b. 0 \<le> b \<and> b < 256) data"

definition bytes_hex :: "int list \<Rightarrow> pyexn + string" where
  "bytes_hex data =
     (if all_bytes data then Inr (concat (map (\<lambda>b. hex2 (nat b)) data))
      else Inl ValueError_bytes)"

section \<open>decoder.py\<close>

subsection \<open>Helper functions\<close>

definition parse_le_int16 :: "int list \<Rightarrow> nat \<Rightarrow> int" where
  "parse_le_int16 data offset =
     (if length data < offset + 2 then 0
      else let raw = (data ! offset) OR push_bit 8 (data ! (offset + 1))
           in if raw > 32767 then raw - 65536 else raw)"

definition parse_be_int16 :: "int list \<Rightarrow> nat \<Rightarrow> int" where
  "parse_be_int16 data offset =
     (if length data < offset + 2 then 0
      else let raw = push_bit 8 (data ! offset) OR (data ! (offset + 1))
           in if raw > 32767 then raw - 65536 else raw)"

definition parse_ivt_int40 :: "int list \<Rightarrow> int" where
  "parse_ivt_int40 data =
     (if length data < 6 then 0
      else let raw = push_bit 32 (data ! 1) OR push_bit 24 (data ! 2) OR push_bit 16 (data ! 3)
                       OR push_bit 8 (data ! 4) OR (data ! 5)
           in if raw AND 0x8000000000 \<noteq> 0 then raw - 0x10000000000 else raw)"

subsection \<open>Decoding logic\<close>

text \<open>
  A decode routine returns its dictionary, in insertion order, or raises. The float
  literals \<open>1.0\<close>, \<open>0.1\<close>, \<open>0.01\<close> and \<open>0.001\<close> are the nearest floats \<open>rd\<close> gives.
\<close>

type_synonym routine = "int list \<Rightarrow> pyexn + pydict"

definition scaled :: "string \<Rightarrow> int \<Rightarrow> real \<Rightarrow> pyexn + pydict" where
  "scaled name raw c =
     (case int_mul_float raw c of Inl e \<Rightarrow> Inl e | Inr v \<Rightarrow> Inr [(name, VFloat v)])"

definition decode_inverter_multiplexed :: routine where
  "decode_inverter_multiplexed data =
     (if length data < 3 then Inr [(''Error'', VStr ''Len<3'')]
      else let mux_id = data ! 0; raw_val = parse_le_int16 data 1
           in if mux_id = 0x30 then scaled ''RPM'' raw_val 1
              else if mux_id = 0xEB then scaled ''DC Bus'' raw_val (rd (1 / 10))
              else if mux_id = 0x20 then scaled ''Inv Current'' raw_val (rd (1 / 10))
              else if mux_id = 0x49 then scaled ''Motor Temp'' raw_val 1
              else if mux_id = 0x4A then scaled ''IGBT Temp'' raw_val 1
              else Inr [(''Mux '' @ hex mux_id, VInt raw_val)])"

definition decode_inverter_igbt_temp :: routine where
  "decode_inverter_igbt_temp data = scaled ''IGBT Temp (L)'' (parse_le_int16 data 1) 1"

definition decode_torque_command :: routine where
  "decode_torque_command data = Inr [(''Torque Cmd'', VInt (parse_le_int16 data 1))]"

definition decode_ui_voltages :: routine where
  "decode_ui_voltages data =
     (case int_mul_float (parse_be_int16 data 2) (rd (1 / 100)) of
        Inl e \<Rightarrow> Inl e
      | Inr v1 \<Rightarrow>
     (case int_mul_float (parse_be_int16 data 4) (rd (1 / 100)) of
        Inl e \<Rightarrow> Inl e
      | Inr v2 \<Rightarrow>
     (case int_mul_float (parse_be_int16 data 6) (rd (1 / 100)) of
        Inl e \<Rightarrow> Inl e
      | Inr v3 \<Rightarrow> Inr [(''UI V1'', VFloat v1), (''UI V2'', VFloat v2), (''UI V3'', VFloat v3)])))"

definition decode_ui_temperatures :: routine where
  "decode_ui_temperatures data =
     (if length data < 7 then Inr [(''Error'', VStr ''Short'')]
      else Inr [(''UI T1'', VInt (data ! 2)), (''UI T2'', VInt (data ! 3)),
                (''UI T3'', VInt (data ! 4))])"

definition ivt_text :: "string \<Rightarrow> int list \<Rightarrow> real \<Rightarrow> nat \<Rightarrow> string \<Rightarrow> pyexn + pydict" where
  "ivt_text name d c k unit =
     (case int_mul_float (parse_ivt_int40 d) c of
        Inl e \<Rightarrow> Inl e
      | Inr v \<Rightarrow> Inr [(name, VStr (fmt_fixed k v @ unit))])"

definition decode_ivt_current :: routine where
  "decode_ivt_current d = ivt_text ''Current'' d (rd (1 / 1000)) 2 '' A''"

definition decode_ivt_voltage_vehicle :: routine where
  "decode_ivt_voltage_vehicle d = ivt_text ''Volts Veh'' d (rd (1 / 1000)) 2 '' V''"

definition decode_ivt_voltage_pack :: routine where
  "decode_ivt_voltage_pack d = ivt_text ''Volts Pack'' d (rd (1 / 1000)) 2 '' V''"

definition decode_ivt_wattage :: routine where
  "decode_ivt_wattage d = ivt_text ''Power'' d 1 1 '' W''"

definition decode_ivt_current_counter :: routine where
  "decode_ivt_current_counter d = scaled ''Ah'' (parse_ivt_int40 d) 1"

definition decode_ivt_wattage_counter :: routine where
  "decode_ivt_wattage_counter d = scaled ''Wh'' (parse_ivt_int40 d) 1"

definition decode_acu_info_1 :: routine where
  "decode_acu_info_1 data =
     (case bytes_hex data of Inl e \<Rightarrow> Inl e | Inr h \<Rightarrow> Inr [(''ACU Info 1'', VStr h)])"

definition decode_acu_info_2 :: routine where
  "decode_acu_info_2 data =
     (case bytes_hex data of Inl e \<Rightarrow> Inl e | Inr h \<Rightarrow> Inr [(''ACU Info 2'', VStr h)])"

definition decode_acu_precharge :: routine where
  "decode_acu_precharge data =
     (case data of [] \<Rightarrow> Inl IndexError | b # _ \<Rightarrow> Inr [(''Precharge'', VInt b)])"

definition decode_vcu_connected :: routine where
  "decode_vcu_connected data =
     (case data of [] \<Rightarrow> Inl IndexError | b # _ \<Rightarrow> Inr [(''VCU'', VBool (b \<noteq> 0))])"

definition decode_vcu_reply :: routine where
  "decode_vcu_reply data =
     (case data of [] \<Rightarrow> Inl IndexError | b # _ \<Rightarrow> Inr [(''VCU Reply'', VBool (b \<noteq> 0))])"

subsection \<open>Registry and class\<close>

definition CAN_ID_NAMES :: "(int \<times> string) list" where
  "CAN_ID_NAMES =
     [(0x181, ''Inverter Status (Mux)''),
      (0x385, ''Inverter IGBT Temp''),
      (0x201, ''Torque Command''),
      (0x700, ''UI Voltages''),
      (0x701, ''UI Temps''),
      (0x521, ''IVT Current''),
      (0x522, ''IVT Voltage Veh''),
      (0x523, ''IVT Voltage Pack''),
      (0x100, ''ACU Control'')]"

definition DECODER_MAP :: "(int \<times> routine) list" where
  "DECODER_MAP =
     [(0x181, decode_inverter_multiplexed),
      (0x385, decode_inverter_igbt_temp),
      (0x201, decode_torque_command),
      (0x700, decode_ui_voltages),
      (0x701, decode_ui_temperatures),
      (0x105, decode_acu_info_1),
      (0x106, decode_acu_info_2),
      (0x100, decode_acu_precharge),
      (0x521, decode_ivt_current),
      (0x522, decode_ivt_voltage_vehicle),
      (0x523, decode_ivt_voltage_pack),
      (0x526, decode_ivt_wattage),
      (0x527, decode_ivt_current_counter),
      (0x528, decode_ivt_wattage_counter),
      (0x175, decode_vcu_connected),
      (0x176, decode_vcu_reply)]"

text \<open>\<open>decode\<close> returns a dictionary or a string; \<open>except Exception\<close> turns every raise into text.\<close>

datatype decoded = RDict pydict | RStr string

definition decode :: "string \<Rightarrow> string list \<Rightarrow> decoded" where
  "decode can_id_str data_bytes_list =
     (case int16 can_id_str of
        Inl e \<Rightarrow> RStr (''Err: '' @ str_exn e)
      | Inr can_id \<Rightarrow>
     (case ints16 data_bytes_list of
        Inl e \<Rightarrow> RStr (''Err: '' @ str_exn e)
      | Inr data_ints \<Rightarrow>
     (case map_of DECODER_MAP can_id of
        Some decoder_func \<Rightarrow>
          (case decoder_func data_ints of
             Inl e \<Rightarrow> RStr (''Err: '' @ str_exn e)
           | Inr m \<Rightarrow> RDict m)
      | None \<Rightarrow> RStr ''No Decoder'')))"

definition get_name :: "string \<Rightarrow> string" where
  "get_name can_id_str =
     (case int16 can_id_str of
        Inl e \<Rightarrow> ''Unknown''
      | Inr cid \<Rightarrow> (case map_of CAN_ID_NAMES cid of Some n \<Rightarrow> n | None \<Rightarrow> ''Unknown ID''))"

subsection \<open>Encoders of the byte fields\<close>

text \<open>
  The two's complement encodings the decode helpers read: \<open>struct.pack('<h', v)\<close>, which
  \<open>TestGen.loop\<close> uses for its frames, its big-endian counterpart \<open>struct.pack('>h', v)\<close>,
  and the five low bytes of \<open>v.to_bytes(6, 'big', signed=True)\<close>.
\<close>

definition pack_le_int16 :: "int \<Rightarrow> int list" where
  "pack_le_int16 v = [v mod 256, (v div 256) mod 256]"

definition pack_be_int16 :: "int \<Rightarrow> int list" where
  "pack_be_int16 v = [(v div 256) mod 256, v mod 256]"

definition pack_be_int40 :: "int \<Rightarrow> int list" where
  "pack_be_int40 v =
     [(v div 2 ^ 32) mod 256, (v div 2 ^ 24) mod 256, (v div 2 ^ 16) mod 256,
      (v div 2 ^ 8) mod 256, v mod 256]"

text \<open>
  The structured short-message of a decode routine: the one-entry dictionary with the key
  \<open>Error\<close> and a text, which \<open>decode_inverter_multiplexed\<close> and \<open>decode_ui_temperatures\<close>
  return for a payload below their length guard.
\<close>

fun is_short_message :: "pyexn + pydict \<Rightarrow> bool" where
  "is_short_message (Inr [(k, VStr msg)]) = (k = ''Error'')"
| "is_short_message r = False"

section \<open>V3.py: the frame pipeline\<close>

subsection \<open>Text of a float\<close>

text \<open>
  \<open>str\<close> of a float is the shortest decimal text that reads back as the same float, the
  nearest one where several have that length, with at most 17 digits (\<open>shortest n x\<close>
  tries \<open>n\<close> digits, then \<open>n + 1\<close>, and gives the digits as an integer with the power
  of ten they are scaled by); it is written with
  a decimal point when the point lies within the digits or up to four zeros before and 16
  digits after its start, with an exponent otherwise.
\<close>

definition declen :: "int \<Rightarrow> int" where
  "declen n = (if n \<le> 0 then 0 else int (length (digits_of 10 n)))"

definition decpt :: "real \<Rightarrow> int" where
  "decpt x = (if 1 \<le> x then declen \<lfloor>x\<rfloor> else 1 - declen (\<lceil>1 / x\<rceil> - 1))"

definition pow10 :: "int \<Rightarrow> real" where
  "pow10 e = (if 0 \<le> e then 10 ^ nat e else 1 / 10 ^ nat (- e))"

function shortest :: "nat \<Rightarrow> real \<Rightarrow> int \<times> int" where
  "shortest n x =
     (let q = decpt x - int n; s = x / pow10 q; c1 = rne s;
          c2 = (if of_int c1 \<le> s then c1 + 1 else c1 - 1)
      in if 17 \<le> n \<or> rd (of_int c1 * pow10 q) = x then (c1, q)
         else if rd (of_int c2 * pow10 q) = x then (c2, q)
         else shortest (Suc n) x)"
  by pat_completeness auto
termination
  by (relation "measure (\<lambda>(n, x). 17 - n)") auto

definition strip_zeros :: "string \<Rightarrow> string" where
  "strip_zeros ds = (case rev (dropWhile (\<lambda>c. c = CHR ''0'') (rev ds)) of [] \<Rightarrow> ''0'' | d # r \<Rightarrow> d # r)"

definition format_r :: "string \<Rightarrow> int \<Rightarrow> string" where
  "format_r ds dp =
     (if - 4 < dp \<and> dp \<le> 16
      then (if dp \<le> 0 then ''0.'' @ replicate (nat (- dp)) CHR ''0'' @ ds
            else if int (length ds) \<le> dp
              then ds @ replicate (nat dp - length ds) CHR ''0'' @ ''.0''
            else take (nat dp) ds @ ''.'' @ drop (nat dp) ds)
      else [hd ds] @ (if 1 < length ds then ''.'' @ tl ds else '''') @ ''e''
           @ (if dp - 1 < 0 then ''-'' else ''+'')
           @ (if \<bar>dp - 1\<bar> < 10 then ''0'' else '''') @ digits_of 10 \<bar>dp - 1\<bar>)"

definition float_repr :: "real \<Rightarrow> string" where
  "float_repr x =
     (if x = 0 then ''0.0''
      else let (c, q) = shortest 1 \<bar>x\<bar>; ds = digits_of 10 c
           in (if x < 0 then ''-'' else '''') @ format_r (strip_zeros ds) (int (length ds) + q))"

text \<open>The text an f-string gives a dictionary value.\<close>

fun str_val :: "pyval \<Rightarrow> pyexn + string" where
  "str_val (VInt n) = str_int n"
| "str_val (VFloat x) = Inr (float_repr x)"
| "str_val (VStr s) = Inr s"
| "str_val (VBool b) = Inr (if b then ''True'' else ''False'')"

subsection \<open>\<open>str.replace\<close>, \<open>str.split\<close> and \<open>str.join\<close>\<close>

function replace_str :: "string \<Rightarrow> string \<Rightarrow> string \<Rightarrow> string" where
  "replace_str old new [] = []"
| "replace_str old new (c # cs) =
     (if old \<noteq> [] \<and> take (length old) (c # cs) = old
      then new @ replace_str old new (drop (length old) (c # cs))
      else c # replace_str old new cs)"
  by pat_completeness auto
termination
  by (relation "measure (\<lambda>(old, new, s). length s)") (auto simp: neq_Nil_conv)

definition py_space :: "char \<Rightarrow> bool" where
  "py_space c = (of_char c \<in> {9, 10, 11, 12, 13, 28, 29, 30, 31, 32, 133, 160 :: nat})"

fun split_ws :: "string \<Rightarrow> string \<Rightarrow> string list" where
  "split_ws cur [] = (if cur = [] then [] else [cur])"
| "split_ws cur (c # cs) =
     (if py_space c then (if cur = [] then split_ws [] cs else cur # split_ws [] cs)
      else split_ws (cur @ [c]) cs)"

definition split :: "string \<Rightarrow> string list" where
  "split s = split_ws [] s"

fun join :: "string \<Rightarrow> string list \<Rightarrow> string" where
  "join sep [] = []"
| "join sep [x] = x"
| "join sep (x # y # ys) = x @ sep @ join sep (y # ys)"

subsection \<open>\<open>CANsnifferUI.parse_frame\<close>\<close>

text \<open>
  The state \<open>parse_frame\<close> changes: the dictionary \<open>stats\<close> (its entries \<open>{'c': .., 't': ..}\<close>
  are the record \<open>stat\<close>), the rows of the dashboard tree
  by item id, and the lines of the decoded log. A dictionary keeps insertion order and the
  tree appends a new item at the end, so both are association lists under
  \<^const>\<open>AList.update\<close>. The clock reading \<open>time.time()\<close> is the argument \<open>now\<close>.
\<close>

record stat =
  stat_c :: int
  stat_t :: real

record row =
  col_id :: string
  col_name :: string
  col_dlc :: string
  col_data :: string
  col_value :: string
  col_freq :: string
  col_count :: int
  col_time :: string

record ui =
  stats :: "(string \<times> stat) list"
  tree :: "(string \<times> row) list"
  txt_log :: "string list"

definition tokens :: "string \<Rightarrow> string list" where
  "tokens line =
     split (replace_str ''DATA:'' '''' (replace_str ''ID:'' '''' (replace_str '','' '' '' line)))"

definition canon_id :: "string \<Rightarrow> string" where
  "canon_id p = (if take 2 p = ''0x'' then p else ''0x'' @ p)"

text \<open>
  The list comprehension \<open>[f"{k}: {v}" for k,v in dec.items()]\<close>: the first value whose text
  cannot be written raises.
\<close>

fun items_text :: "pydict \<Rightarrow> pyexn + string list" where
  "items_text [] = Inr []"
| "items_text ((k, v) # m) =
     (case str_val v of
        Inl e \<Rightarrow> Inl e
      | Inr s \<Rightarrow>
          (case items_text m of Inl e \<Rightarrow> Inl e | Inr ss \<Rightarrow> Inr ((k @ '': '' @ s) # ss)))"

definition value_text :: "decoded \<Rightarrow> pyexn + string" where
  "value_text dec =
     (case dec of
        RDict m \<Rightarrow> (case items_text m of Inl e \<Rightarrow> Inl e | Inr ss \<Rightarrow> Inr (join '', '' ss))
      | RStr s \<Rightarrow> Inr s)"

definition freq_text :: "real \<Rightarrow> real \<Rightarrow> string" where
  "freq_text now prev_t =
     (if 0 < fsub now prev_t then fmt_fixed 1 (fdiv 1 (fsub now prev_t)) @ '' Hz'' else ''-'')"

text \<open>
  The whole body is inside \<open>try: ... except: pass\<close>, so a raise ends the call with the
  state as it is at that point. \<open>decode\<close> and \<open>get_name\<close> return for every argument and
  the division is guarded; the statement that can raise is the one that builds \<open>val_str\<close>,
  when a decoded integer is too long to be written in decimal. It comes before \<open>stats\<close>,
  the tree and the log are touched, so the line is dropped like one with fewer than two
  tokens. The calls of the tree and text widgets are taken to succeed.
\<close>

definition parse_frame :: "string \<Rightarrow> real \<Rightarrow> string \<Rightarrow> ui \<Rightarrow> ui" where
  "parse_frame ts now line st =
     (let parts = tokens line
      in if length parts < 2 then st
         else
           let cid = canon_id (parts ! 0);
               data = drop 2 parts;
               dec = decode cid data
           in case value_text dec of
                Inl e \<Rightarrow> st
              | Inr val_str \<Rightarrow>
                  let prev = (case map_of (stats st) cid of
                                Some p \<Rightarrow> p
                              | None \<Rightarrow> \<lparr>stat_c = 0, stat_t = now\<rparr>);
                      freq = freq_text now (stat_t prev);
                      stats' = AList.update cid \<lparr>stat_c = stat_c prev + 1, stat_t = now\<rparr>
                                 (stats st);
                      r = \<lparr>col_id = cid, col_name = get_name cid, col_dlc = parts ! 1,
                           col_data = join '' '' data, col_value = val_str, col_freq = freq,
                           col_count = stat_c prev + 1, col_time = ts\<rparr>
                  in st\<lparr>stats := stats',
                        tree := AList.update cid r (tree st),
                        txt_log := txt_log st
                          @ [''['' @ ts @ ''] '' @ cid @ '': '' @ val_str @ [CHR 0x0A]]\<rparr>)"

definition init_ui :: ui where
  "init_ui = \<lparr>stats = [], tree = [], txt_log = []\<rparr>"

section \<open>Byte field extraction\<close>

lemma or_push_bit_add:
  fixes a b :: int
  assumes "0 \<le> a" "a < 2 ^ n"
  shows "a OR push_bit n b = a + push_bit n b"
proof -
  have a: "take_bit n a = a" using assms by (simp add: take_bit_int_eq_self)
  have "take_bit n a AND push_bit n b = 0"
    by (rule bit_eqI) (auto simp: bit_and_iff bit_push_bit_iff bit_take_bit_iff)
  then have "a AND push_bit n b = 0" by (simp add: a)
  then show ?thesis by (simp add: disjunctive_add_eq_or)
qed

lemma byte_pair_mod:
  fixes v :: int
  shows "v mod 256 + 256 * ((v div 256) mod 256) = v mod 65536"
proof -
  have "v mod 65536 = v mod (256 * 256)" by simp
  also have "\<dots> = 256 * ((v div 256) mod 256) + v mod 256"
    by (rule zmod_zmult2_eq) simp
  finally show ?thesis by simp
qed

lemma le_raw:
  "(v mod 256) OR push_bit 8 ((v div 256) mod 256) = (v::int) mod 65536"
proof -
  have "(v mod 256) OR push_bit 8 ((v div 256) mod 256)
        = v mod 256 + push_bit 8 ((v div 256) mod 256)"
    by (rule or_push_bit_add) simp_all
  then show ?thesis using byte_pair_mod [of v] by (simp add: push_bit_eq_mult)
qed

lemma sign_adjust16:
  fixes v :: int
  assumes "- 32768 \<le> v" "v \<le> 32767"
  shows "(if v mod 65536 > 32767 then v mod 65536 - 65536 else v mod 65536) = v"
proof (cases "0 \<le> v")
  case True
  then have "v mod 65536 = v" using assms by simp
  then show ?thesis using assms by simp
next
  case False
  then have "v mod 65536 = v + 65536" using assms
    by (smt (verit) mod_add_self2 mod_pos_pos_trivial)
  then show ?thesis using False assms by simp
qed

text \<open>
  Claim C3. For every integer \<open>v\<close> with \<open>-32768 \<le> v \<le> 32767\<close>, the two little-endian bytes
  of \<open>v\<close> decode to \<open>v\<close> with \<open>parse_le_int16\<close> at offset 0, and the two big-endian bytes of
  \<open>v\<close> decode to \<open>v\<close> with \<open>parse_be_int16\<close> at offset 0.
\<close>

theorem int16_roundtrip:
  assumes "- 32768 \<le> v" "v \<le> 32767"
  shows "parse_le_int16 (pack_le_int16 v) 0 = v \<and> parse_be_int16 (pack_be_int16 v) 0 = v"
  using sign_adjust16 [OF assms]
  by (simp add: parse_le_int16_def parse_be_int16_def pack_le_int16_def pack_be_int16_def
      le_raw Let_def or.commute)

theorem int16_roundtrip_witness:
  "(- 32768 :: int) \<le> - 2 \<and> (- 2 :: int) \<le> 32767
   \<and> pack_le_int16 (- 2) = [254, 255] \<and> parse_le_int16 [254, 255] 0 = - 2
   \<and> pack_be_int16 (- 2) = [255, 254] \<and> parse_be_int16 [255, 254] 0 = - 2"
  using int16_roundtrip [of "- 2"] by (simp add: pack_le_int16_def pack_be_int16_def)

lemma sign_adjust40:
  fixes v :: int
  assumes "- (2 ^ 39) \<le> v" "v \<le> 2 ^ 39 - 1"
  shows "(if bit (take_bit 40 v) 39 then take_bit 40 v - 0x10000000000 else take_bit 40 v) = v"
proof -
  have "v < 2 ^ 39" using assms(2) by linarith
  with assms(1) have "signed_take_bit 39 v = v"
    by (rule signed_take_bit_int_eq_self)
  moreover have "signed_take_bit 39 v = take_bit (Suc 39) v - 2 ^ Suc 39 * of_bool (bit v 39)"
    by (rule signed_take_bit_eq_take_bit_minus)
  moreover have "bit (take_bit 40 v) 39 = bit v 39"
    by (simp add: bit_take_bit_iff)
  ultimately show ?thesis by (cases "bit v 39") simp_all
qed

lemma byte_take_drop: "((v::int) div 2 ^ k) mod 256 = take_bit 8 (drop_bit k v)"
  by (simp add: take_bit_eq_mod drop_bit_eq_div)

lemma and_sign_bit40:
  fixes r :: int
  shows "(r AND 0x8000000000 \<noteq> 0) = bit r 39"
proof -
  have "(0x8000000000 :: int) = 2 ^ 39" by simp
  then have "(r AND 0x8000000000 = 0) = (r AND 2 ^ 39 = 0)" by simp
  then show ?thesis by (simp only: and_exp_eq_0_iff_not_bit) simp
qed

lemma be40_raw:
  fixes v :: int
  shows "push_bit 32 (take_bit 8 (drop_bit 32 v)) OR push_bit 24 (take_bit 8 (drop_bit 24 v))
         OR push_bit 16 (take_bit 8 (drop_bit 16 v)) OR push_bit 8 (take_bit 8 (drop_bit 8 v))
         OR take_bit 8 v = take_bit 40 v"
proof (rule bit_eqI)
  fix n :: nat
  consider "n < 8" | "8 \<le> n \<and> n < 16" | "16 \<le> n \<and> n < 24" | "24 \<le> n \<and> n < 32"
    | "32 \<le> n \<and> n < 40" | "40 \<le> n"
    by linarith
  then show "bit (push_bit 32 (take_bit 8 (drop_bit 32 v)) OR push_bit 24 (take_bit 8 (drop_bit 24 v))
         OR push_bit 16 (take_bit 8 (drop_bit 16 v)) OR push_bit 8 (take_bit 8 (drop_bit 8 v))
         OR take_bit 8 v) n = bit (take_bit 40 v) n"
    by cases
      (auto simp: bit_or_iff bit_push_bit_iff bit_take_bit_iff bit_drop_bit_eq)
qed

lemma be40_raw_num:
  fixes v :: int
  shows "push_bit 32 (v div 4294967296 mod 256) OR push_bit 24 (v div 16777216 mod 256)
         OR push_bit 16 (v div 65536 mod 256) OR push_bit 8 (v div 256 mod 256)
         OR v mod 256 = take_bit 40 v"
  using be40_raw [of v] by (simp add: take_bit_eq_mod drop_bit_eq_div)


text \<open>
  Claim C7. For every integer \<open>v\<close> with \<open>-2^39 \<le> v \<le> 2^39 - 1\<close>, a payload that holds the
  big-endian 40-bit encoding of \<open>v\<close> in bytes 1 to 5, after any byte 0 and before any
  further bytes, decodes to \<open>v\<close> with \<open>parse_ivt_int40\<close>.
\<close>

theorem int40_roundtrip:
  assumes "- (2 ^ 39) \<le> v" "v \<le> 2 ^ 39 - 1"
  shows "parse_ivt_int40 (b0 # pack_be_int40 v @ rest) = v"
proof -
  have "parse_ivt_int40 (b0 # pack_be_int40 v @ rest)
        = (if bit (take_bit 40 v) 39 then take_bit 40 v - 0x10000000000 else take_bit 40 v)"
    by (simp add: parse_ivt_int40_def pack_be_int40_def Let_def and_sign_bit40 be40_raw_num
             del: bit_take_bit_iff)
  then show ?thesis using sign_adjust40 [OF assms] by (simp only:)
qed

theorem int40_roundtrip_witness:
  "- (2 ^ 39) \<le> (- 1000 :: int) \<and> (- 1000 :: int) \<le> 2 ^ 39 - 1
   \<and> pack_be_int40 (- 1000) = [255, 255, 255, 252, 24]
   \<and> parse_ivt_int40 [7, 255, 255, 255, 252, 24, 0, 0] = - 1000"
  using int40_roundtrip [of "- 1000" 7 "[0, 0]"] by (simp add: pack_be_int40_def)

section \<open>Integers as floats\<close>

text \<open>An integer below \<open>2^53\<close> in magnitude converts to a float without rounding.\<close>

lemma rne_of_int: "rne (of_int m) = m"
  by (simp add: rne_def)

lemma pow2_nonpos: "e \<le> 0 \<Longrightarrow> pow2 e = 1 / 2 ^ nat (- e)"
  by (cases "e = 0") (simp_all add: pow2_def)

lemma rd_of_int:
  assumes "\<bar>n\<bar> < 2 ^ 53"
  shows "rd (of_int n) = of_int n"
proof (cases "n = 0")
  case True
  then show ?thesis by (simp add: rd_def)
next
  case False
  have b: "bitlen \<bar>n\<bar> \<le> 53" using assms by (simp add: bitlen_le_iff_power)
  have fl: "\<lfloor>\<bar>of_int n :: real\<bar>\<rfloor> = \<bar>n\<bar>" by (metis floor_of_int of_int_abs)
  have "(1::real) \<le> \<bar>of_int n\<bar>" using False by simp
  then have il: "ilog2 \<bar>of_int n\<bar> = bitlen \<bar>n\<bar> - 1"
    by (simp only: ilog2_def fl if_True)
  define e where "e = bitlen \<bar>n\<bar> - 1 - 52"
  define k where "k = nat (- e)"
  have e: "e \<le> 0" using b by (simp add: e_def)
  have p: "pow2 e = 1 / 2 ^ k" using e by (simp add: pow2_nonpos k_def)
  have "(of_int n :: real) / pow2 e = of_int (n * 2 ^ k)" by (simp add: p)
  then have r: "rne (of_int n / pow2 e) = n * 2 ^ k" by (simp only: rne_of_int)
  have "rd (of_int n) = of_int (rne (of_int n / pow2 e)) * pow2 e"
    using False by (simp add: rd_def il e_def Let_def)
  also have "\<dots> = of_int n" unfolding r by (simp add: p)
  finally show ?thesis .
qed

lemma float_of_int_exact:
  assumes "\<bar>n\<bar> < 2 ^ 53"
  shows "float_of_int n = Inr (of_int n)"
proof -
  have "\<bar>of_int n :: real\<bar> = of_int \<bar>n\<bar>" by simp
  also have "\<dots> < of_int (2 ^ 53)" using assms by (simp only: of_int_less_iff)
  also have "\<dots> < (2 :: real) ^ 1024" by simp
  finally have "\<not> (2 :: real) ^ 1024 \<le> \<bar>of_int n\<bar>" by simp
  then show ?thesis by (simp add: float_of_int_def rd_of_int [OF assms] Let_def)
qed

lemma int_mul_float_one:
  assumes "\<bar>n\<bar> < 2 ^ 53"
  shows "int_mul_float n 1 = Inr (of_int n)"
  by (simp add: int_mul_float_def float_of_int_exact [OF assms] fmul_def rd_of_int [OF assms])

lemma int_mul_float_scale:
  assumes "\<bar>n\<bar> < 2 ^ 53"
  shows "int_mul_float n c = Inr (fmul (of_int n) c)"
  by (simp add: int_mul_float_def float_of_int_exact [OF assms])

section \<open>Ranges of the fields of a byte payload\<close>

lemma all_bytes_nth: "all_bytes data \<Longrightarrow> i < length data \<Longrightarrow> 0 \<le> data ! i \<and> data ! i < 256"
  by (simp add: all_bytes_def list_all_length)

lemma raw16_range:
  fixes a b :: int
  assumes "0 \<le> a" "a < 256" "0 \<le> b" "b < 256"
  shows "0 \<le> a OR push_bit 8 b \<and> a OR push_bit 8 b < 65536"
proof -
  have "a OR push_bit 8 b = a + push_bit 8 b"
    by (rule or_push_bit_add) (use assms in simp_all)
  then show ?thesis using assms by (simp add: push_bit_eq_mult)
qed

lemma parse_le_int16_range:
  assumes "all_bytes data"
  shows "- 32768 \<le> parse_le_int16 data off \<and> parse_le_int16 data off \<le> 32767"
proof (cases "length data < off + 2")
  case True
  then show ?thesis by (simp add: parse_le_int16_def)
next
  case False
  then have b: "0 \<le> data ! off \<and> data ! off < 256"
    "0 \<le> data ! (off + 1) \<and> data ! (off + 1) < 256"
    using all_bytes_nth [OF assms] by simp_all
  define raw where "raw = data ! off OR push_bit 8 (data ! (off + 1))"
  have r: "0 \<le> raw \<and> raw < 65536"
    unfolding raw_def using raw16_range b by blast
  have "parse_le_int16 data off = (if raw > 32767 then raw - 65536 else raw)"
    using False by (simp add: parse_le_int16_def Let_def raw_def)
  then show ?thesis using r by simp
qed

lemma parse_be_int16_range:
  assumes "all_bytes data"
  shows "- 32768 \<le> parse_be_int16 data off \<and> parse_be_int16 data off \<le> 32767"
proof (cases "length data < off + 2")
  case True
  then show ?thesis by (simp add: parse_be_int16_def)
next
  case False
  then have b: "0 \<le> data ! (off + 1) \<and> data ! (off + 1) < 256"
    "0 \<le> data ! off \<and> data ! off < 256"
    using all_bytes_nth [OF assms] by simp_all
  define raw where "raw = data ! (off + 1) OR push_bit 8 (data ! off)"
  have r: "0 \<le> raw \<and> raw < 65536"
    unfolding raw_def using raw16_range b by blast
  have "parse_be_int16 data off = (if raw > 32767 then raw - 65536 else raw)"
    using False by (simp add: parse_be_int16_def Let_def raw_def or.commute)
  then show ?thesis using r by simp
qed

lemma push_byte_range:
  fixes b :: int
  assumes "0 \<le> b \<and> b < 256" "k \<le> 32"
  shows "0 \<le> push_bit k b \<and> push_bit k b < 2 ^ 40"
proof -
  have e: "push_bit k b = b * 2 ^ k" by (simp add: push_bit_eq_mult)
  have "(2 :: int) ^ k \<le> 2 ^ 32" using assms(2) by (rule power_increasing) simp
  then have "b * 2 ^ k \<le> 255 * 2 ^ 32"
    using assms(1) by (intro mult_mono) simp_all
  then show ?thesis using assms(1) by (simp add: e)
qed

lemma parse_ivt_int40_range:
  assumes "all_bytes data"
  shows "- (2 ^ 39) \<le> parse_ivt_int40 data \<and> parse_ivt_int40 data < 2 ^ 39"
proof (cases "length data < 6")
  case True
  then show ?thesis by (simp add: parse_ivt_int40_def)
next
  case False
  define raw where "raw = push_bit 32 (data ! 1) OR push_bit 24 (data ! 2) OR push_bit 16 (data ! 3)
                       OR push_bit 8 (data ! 4) OR (data ! 5)"
  have b: "0 \<le> data ! 1 \<and> data ! 1 < 256" "0 \<le> data ! 2 \<and> data ! 2 < 256"
    "0 \<le> data ! 3 \<and> data ! 3 < 256" "0 \<le> data ! 4 \<and> data ! 4 < 256"
    "0 \<le> data ! 5 \<and> data ! 5 < 256"
    using all_bytes_nth [OF assms] False by simp_all
  have p: "0 \<le> push_bit 32 (data ! 1) \<and> push_bit 32 (data ! 1) < 2 ^ 40"
    "0 \<le> push_bit 24 (data ! 2) \<and> push_bit 24 (data ! 2) < 2 ^ 40"
    "0 \<le> push_bit 16 (data ! 3) \<and> push_bit 16 (data ! 3) < 2 ^ 40"
    "0 \<le> push_bit 8 (data ! 4) \<and> push_bit 8 (data ! 4) < 2 ^ 40"
    using b by (simp_all only: push_byte_range)
  have l: "data ! 5 < 2 ^ 40" using b(5) by simp
  have nn: "0 \<le> raw" using p b by (simp add: raw_def)
  have ub: "raw < 2 ^ 40" unfolding raw_def
    using p l b by (intro OR_upper) simp_all
  have s: "bit raw 39 \<Longrightarrow> 2 ^ 39 \<le> raw"
    using nn by (metis bit_iff_odd div_pos_pos_trivial even_zero linorder_not_le)
  have "parse_ivt_int40 data = (if raw AND 0x8000000000 \<noteq> 0 then raw - 0x10000000000 else raw)"
    using False by (simp add: parse_ivt_int40_def raw_def Let_def)
  also have "\<dots> = (if bit raw 39 then raw - 2 ^ 40 else raw)"
    by (simp only: and_sign_bit40) simp
  finally have eq: "parse_ivt_int40 data = (if bit raw 39 then raw - 2 ^ 40 else raw)" .
  have ns: "\<not> bit raw 39 \<Longrightarrow> raw < 2 ^ 39"
  proof -
    assume n: "\<not> bit raw 39"
    have "raw = take_bit 40 raw" using nn ub by (simp add: take_bit_int_eq_self)
    also have "\<dots> = take_bit 39 raw"
      by (rule bit_eqI) (use n in \<open>auto simp: bit_take_bit_iff less_Suc_eq numeral_eq_Suc\<close>)
    finally have "raw = take_bit 39 raw" .
    then show ?thesis by (metis take_bit_int_less_exp)
  qed
  show ?thesis using eq s ns nn ub by (cases "bit raw 39") simp_all
qed

section \<open>The decode routines\<close>

text \<open>Unfolding sets that evaluate the float operations and \<open>int(x, 16)\<close> on literals.\<close>

lemmas float_eval = fmt_fixed_def fdiv_def fmul_def fsub_def int_mul_float_def float_of_int_def
  rd_def ilog2_def rne_def pow2_def compute_bitlen Let_def

lemmas int16_eval = int16_def strip_def int_space_def hex_body_def hex_digit_def

lemma replicate_num: "replicate (numeral k) x = x # replicate (pred_numeral k) x"
  by (simp add: numeral_eq_Suc)


lemmas line_eval = tokens_def split_def py_space_def canon_id_def value_text_def freq_text_def

lemma fmul_one: "\<bar>n\<bar> < 2 ^ 53 \<Longrightarrow> fmul (of_int n) 1 = of_int n"
  by (simp add: fmul_def rd_of_int)

lemma scaled_bytes:
  assumes "- 32768 \<le> n \<and> n \<le> 32767"
  shows "scaled name n c = Inr [(name, VFloat (fmul (of_int n) c))]"
proof -
  have "\<bar>n\<bar> \<le> 32768" using assms by linarith
  then have "\<bar>n\<bar> < 2 ^ 53" by simp
  then show ?thesis by (simp add: scaled_def int_mul_float_scale)
qed

lemma fmul_one_bytes:
  assumes "- 32768 \<le> n \<and> n \<le> 32767"
  shows "fmul (of_int n) 1 = of_int n"
proof -
  have "\<bar>n\<bar> \<le> 32768" using assms by linarith
  then have "\<bar>n\<bar> < 2 ^ 53" by simp
  then show ?thesis by (rule fmul_one)
qed

section \<open>Sign of a rounded float\<close>

text \<open>Rounding keeps the sign: a difference of clock readings is positive as a float exactly
  when it is positive.\<close>

lemma pow2_power_int: "pow2 e = 2 powi e"
proof (cases "0 \<le> e")
  case True
  then show ?thesis by (simp add: pow2_def power_int_def)
next
  case False
  have "(1 :: real) / 2 ^ nat (- e) = inverse 2 ^ nat (- e)"
    by (simp add: power_one_over inverse_eq_divide)
  then show ?thesis using False by (simp only: pow2_def power_int_def if_False)
qed

lemma pow2_pos: "0 < pow2 e"
  by (simp add: pow2_power_int)

lemma rne_ge_floor: "\<lfloor>y\<rfloor> \<le> rne y"
  by (simp add: rne_def Let_def)

lemma rne_nonpos:
  assumes "y \<le> 0"
  shows "rne y \<le> 0"
proof (cases "\<lfloor>y\<rfloor> = 0")
  case True
  then have "0 \<le> y" by (metis of_int_0 of_int_floor_le)
  with assms have "y = 0" by simp
  then show ?thesis by (simp add: rne_def)
next
  case False
  have "\<lfloor>y\<rfloor> \<le> 0" using assms by (simp add: floor_le_zero)
  with False have "\<lfloor>y\<rfloor> + 1 \<le> 0" by linarith
  then show ?thesis by (simp add: rne_def Let_def)
qed

lemma ilog2_lower:
  assumes "0 < x"
  shows "pow2 (ilog2 x) \<le> x"
proof (cases "1 \<le> x")
  case True
  define n where "n = \<lfloor>x\<rfloor>"
  have n: "0 < n" using True by (simp add: n_def)
  then have b: "2 ^ nat (bitlen n - 1) \<le> n" using bitlen_bounds by blast
  have "bitlen n \<noteq> 0" using n by (simp add: bitlen_eq_zero_iff)
  then have "0 \<le> bitlen n - 1" using bitlen_nonneg [of n] by linarith
  then have "pow2 (bitlen n - 1) = of_int (2 ^ nat (bitlen n - 1))"
    by (simp add: pow2_def)
  also have "\<dots> \<le> of_int n" using b by (simp only: of_int_le_iff)
  also have "\<dots> \<le> x" by (simp add: n_def)
  finally show ?thesis using True by (simp add: ilog2_def n_def)
next
  case False
  define N where "N = \<lceil>1 / x\<rceil>"
  define b where "b = bitlen (N - 1)"
  have "1 < 1 / x" using False assms by simp
  then have N: "2 \<le> N" unfolding N_def by (simp add: le_ceiling_iff)
  then have "0 < N - 1" by simp
  then have "N - 1 < 2 ^ nat b" unfolding b_def using bitlen_bounds by blast
  then have le: "N \<le> 2 ^ nat b" by simp
  have "b \<noteq> 0" unfolding b_def using N by (simp add: bitlen_eq_zero_iff)
  then have bp: "0 < b" unfolding b_def using bitlen_nonneg [of "N - 1"] by linarith
  have "1 / x \<le> of_int N" by (simp add: N_def)
  also have "\<dots> \<le> of_int (2 ^ nat b)" using le by (simp only: of_int_le_iff)
  finally have "1 / x \<le> 2 ^ nat b" by simp
  then have "1 / 2 ^ nat b \<le> x" using assms
    by (simp add: field_simps)
  moreover have "pow2 (- b) = 1 / 2 ^ nat b" using bp by (simp add: pow2_def)
  ultimately show ?thesis using False by (simp add: ilog2_def N_def b_def)
qed

lemma rd_pos:
  assumes "0 < x"
  shows "0 < rd x"
proof -
  define e where "e = ilog2 x - 52"
  have "pow2 e = pow2 (ilog2 x) / 2 ^ 52"
    by (simp add: e_def pow2_power_int power_int_diff)
  then have "x / pow2 e = x / pow2 (ilog2 x) * 2 ^ 52"
    by (simp only: divide_divide_eq_right times_divide_eq_left)
  moreover have "1 \<le> x / pow2 (ilog2 x)"
    using ilog2_lower [OF assms] pow2_pos [of "ilog2 x"] by simp
  ultimately have "1 \<le> x / pow2 e"
    by (smt (verit) mult_le_cancel_left1 one_le_numeral one_le_power)
  then have "1 \<le> \<lfloor>x / pow2 e\<rfloor>" by simp
  then have "1 \<le> rne (x / pow2 e)" using rne_ge_floor [of "x / pow2 e"] by linarith
  then have "0 < of_int (rne (x / pow2 e)) * pow2 e"
    using pow2_pos [of e] by simp
  then show ?thesis using assms by (simp add: rd_def e_def Let_def)
qed

lemma rd_nonpos:
  assumes "x \<le> 0"
  shows "rd x \<le> 0"
proof (cases "x = 0")
  case True
  then show ?thesis by (simp add: rd_def)
next
  case False
  define e where "e = ilog2 \<bar>x\<bar> - 52"
  have "x / pow2 e \<le> 0" using assms pow2_pos [of e] by (simp add: divide_le_0_iff)
  then have "rne (x / pow2 e) \<le> 0" by (rule rne_nonpos)
  then have "of_int (rne (x / pow2 e)) * pow2 e \<le> 0"
    using pow2_pos [of e] by (simp add: mult_le_0_iff)
  then show ?thesis using False by (simp add: rd_def e_def Let_def)
qed

lemma rd_pos_iff: "0 < rd x \<longleftrightarrow> 0 < x"
  using rd_pos [of x] rd_nonpos [of x] by fastforce

lemma fsub_pos_iff: "0 < fsub a b \<longleftrightarrow> b < a"
  by (simp add: fsub_def rd_pos_iff)

text \<open>
  Claim C2. The multiplexed decoder of id 0x181, on a payload of at least three bytes,
  returns one named signal: for a known selector in byte 0 the scaled little-endian 16-bit
  value of bytes 1 and 2 (scale 1.0 for RPM, Motor Temp and IGBT Temp, 0.1 for DC Bus and
  Inv Current), for any other selector the raw 16-bit value under the label
  \<open>Mux\<close> followed by the selector in hexadecimal. Selector 0x30 with bytes 0x58, 0x02
  gives RPM 600.0, selector 0xFF with bytes 0x01, 0x00 gives \<open>Mux 0xff\<close> with value 1.
\<close>

theorem multiplexed_dispatch:
  "(3 \<le> length data \<and> all_bytes data \<longrightarrow>
      decode_inverter_multiplexed data =
        (if data ! 0 = 0x30 then Inr [(''RPM'', VFloat (of_int (parse_le_int16 data 1)))]
         else if data ! 0 = 0xEB
           then Inr [(''DC Bus'', VFloat (fmul (of_int (parse_le_int16 data 1)) (rd (1 / 10))))]
         else if data ! 0 = 0x20
           then Inr [(''Inv Current'', VFloat (fmul (of_int (parse_le_int16 data 1)) (rd (1 / 10))))]
         else if data ! 0 = 0x49 then Inr [(''Motor Temp'', VFloat (of_int (parse_le_int16 data 1)))]
         else if data ! 0 = 0x4A then Inr [(''IGBT Temp'', VFloat (of_int (parse_le_int16 data 1)))]
         else Inr [(''Mux '' @ hex (data ! 0), VInt (parse_le_int16 data 1))]))
   \<and> decode ''0x181'' [''30'', ''58'', ''02''] = RDict [(''RPM'', VFloat 600)]
   \<and> decode ''0x181'' [''FF'', ''01'', ''00''] = RDict [(''Mux 0xff'', VInt 1)]"
proof (intro conjI impI)
  assume a: "3 \<le> length data \<and> all_bytes data"
  show "decode_inverter_multiplexed data =
        (if data ! 0 = 0x30 then Inr [(''RPM'', VFloat (of_int (parse_le_int16 data 1)))]
         else if data ! 0 = 0xEB
           then Inr [(''DC Bus'', VFloat (fmul (of_int (parse_le_int16 data 1)) (rd (1 / 10))))]
         else if data ! 0 = 0x20
           then Inr [(''Inv Current'', VFloat (fmul (of_int (parse_le_int16 data 1)) (rd (1 / 10))))]
         else if data ! 0 = 0x49 then Inr [(''Motor Temp'', VFloat (of_int (parse_le_int16 data 1)))]
         else if data ! 0 = 0x4A then Inr [(''IGBT Temp'', VFloat (of_int (parse_le_int16 data 1)))]
         else Inr [(''Mux '' @ hex (data ! 0), VInt (parse_le_int16 data 1))])"
    using a by (simp add: decode_inverter_multiplexed_def Let_def scaled_bytes
        fmul_one_bytes parse_le_int16_range)
next
  show "decode ''0x181'' [''30'', ''58'', ''02''] = RDict [(''RPM'', VFloat 600)]"
    by (simp add: decode_def int16_eval DECODER_MAP_def decode_inverter_multiplexed_def
        parse_le_int16_def scaled_def float_eval)
next
  show "decode ''0x181'' [''FF'', ''01'', ''00''] = RDict [(''Mux 0xff'', VInt 1)]"
    by (simp add: decode_def int16_eval DECODER_MAP_def decode_inverter_multiplexed_def
        parse_le_int16_def hex_def)
qed

theorem multiplexed_dispatch_witness:
  "3 \<le> length [0x4A, 0x19, 0x00 :: int] \<and> all_bytes [0x4A, 0x19, 0x00]
   \<and> decode_inverter_multiplexed [0x4A, 0x19, 0x00] = Inr [(''IGBT Temp'', VFloat 25)]"
  using multiplexed_dispatch [of "[0x4A, 0x19, 0x00]"]
  by (simp add: all_bytes_def parse_le_int16_def)

text \<open>
  Claim C4, as stated, fails: the payload bytes \<open>[_, 0x00, 0x00, 0x03, 0xE8, 0x00]\<close> hold
  the 40-bit value 256000 in bytes 1 to 5, so \<open>decode_ivt_current\<close> gives \<open>256.00 A\<close>.
\<close>

theorem ivt_current_claimed_frame_counterexample:
  "decode_ivt_current [0, 0x00, 0x00, 0x03, 0xE8, 0x00] = Inr [(''Current'', VStr ''256.00 A'')]
   \<and> decode_ivt_current [0, 0x00, 0x00, 0x03, 0xE8, 0x00] \<noteq> Inr [(''Current'', VStr ''1.00 A'')]"
  by (simp add: decode_ivt_current_def ivt_text_def parse_ivt_int40_def float_eval)

text \<open>
  Claim C4, amended. Whatever byte 0 is, the six-byte frame \<open>[_, 0x00, 0x00, 0x00, 0x03, 0xE8]\<close>
  holds the 40-bit value 1000 and \<open>decode_ivt_current\<close> (scale 0.001, two decimals) gives
  the text \<open>1.00 A\<close>; the frame \<open>[_, 0x00, 0x00, 0x03, 0xE8, 0x00]\<close> holds 256000 and gives
  \<open>256.00 A\<close>.
\<close>

theorem ivt_current_text:
  "parse_ivt_int40 [b0, 0x00, 0x00, 0x00, 0x03, 0xE8] = 1000
   \<and> decode_ivt_current [b0, 0x00, 0x00, 0x00, 0x03, 0xE8] = Inr [(''Current'', VStr ''1.00 A'')]
   \<and> parse_ivt_int40 [b0, 0x00, 0x00, 0x03, 0xE8, 0x00] = 256000
   \<and> decode_ivt_current [b0, 0x00, 0x00, 0x03, 0xE8, 0x00] = Inr [(''Current'', VStr ''256.00 A'')]"
  by (simp add: decode_ivt_current_def ivt_text_def parse_ivt_int40_def float_eval)

theorem ivt_current_text_witness:
  "decode ''0x521'' [''7F'', ''00'', ''00'', ''00'', ''03'', ''E8'']
     = RDict [(''Current'', VStr ''1.00 A'')]
   \<and> decode ''0x521'' [''7F'', ''00'', ''00'', ''03'', ''E8'', ''00'']
     = RDict [(''Current'', VStr ''256.00 A'')]"
  using ivt_current_text [of "0x7F"]
  by (simp add: decode_def int16_eval DECODER_MAP_def)

section \<open>The registry and \<open>DataDecoder\<close>\<close>

lemma ints16_all:
  "(\<forall>x \<in> set data. \<exists>k. int16 x = Inr k) \<Longrightarrow> \<exists>ns. ints16 data = Inr ns"
  by (induction data) auto

lemma names_keys_registered:
  "map_of DECODER_MAP n = None \<Longrightarrow> map_of CAN_ID_NAMES n = None"
  by (simp add: DECODER_MAP_def CAN_ID_NAMES_def split: if_splits)

text \<open>
  Claim C8. For every id string that \<open>int(x, 16)\<close> parses to an id without an entry in
  \<open>DECODER_MAP\<close>, \<open>get_name\<close> returns \<open>Unknown ID\<close> and \<open>decode\<close> returns the text
  \<open>No Decoder\<close> for every list of data tokens that parse as hexadecimal; it never returns
  a dictionary, a data token that does not parse being the only other outcome.
\<close>

theorem unregistered_id:
  assumes "int16 cid = Inr n" "map_of DECODER_MAP n = None"
  shows "get_name cid = ''Unknown ID''
         \<and> ((\<forall>x \<in> set data. \<exists>k. int16 x = Inr k) \<longrightarrow> decode cid data = RStr ''No Decoder'')
         \<and> (decode cid data = RStr ''No Decoder''
              \<or> (\<exists>e. ints16 data = Inl e \<and> decode cid data = RStr (''Err: '' @ str_exn e)))"
proof (intro conjI impI)
  show "get_name cid = ''Unknown ID''"
    using assms(1) names_keys_registered [OF assms(2)] by (simp add: get_name_def)
next
  assume "\<forall>x \<in> set data. \<exists>k. int16 x = Inr k"
  then obtain ns where "ints16 data = Inr ns" using ints16_all by blast
  then show "decode cid data = RStr ''No Decoder''"
    using assms by (simp add: decode_def)
next
  show "decode cid data = RStr ''No Decoder''
        \<or> (\<exists>e. ints16 data = Inl e \<and> decode cid data = RStr (''Err: '' @ str_exn e))"
    using assms by (cases "ints16 data") (simp_all add: decode_def)
qed

theorem unregistered_id_witness:
  "int16 ''0x999'' = Inr 0x999 \<and> map_of DECODER_MAP 0x999 = None
   \<and> int16 ''01'' = Inr 1 \<and> int16 ''02'' = Inr 2
   \<and> decode ''0x999'' [''01'', ''02''] = RStr ''No Decoder'' \<and> get_name ''0x999'' = ''Unknown ID''"
proof -
  have a: "int16 ''0x999'' = Inr 0x999" by (simp add: int16_eval)
  have b: "map_of DECODER_MAP 0x999 = None" by (simp add: DECODER_MAP_def)
  have d: "int16 ''01'' = Inr 1" "int16 ''02'' = Inr 2" by (simp_all add: int16_eval)
  show ?thesis using unregistered_id [OF a b, of "[''01'', ''02'']"] a b d by simp
qed

text \<open>
  Claim C6. For every id string and every list of tokens, \<open>decode\<close> returns a dictionary,
  the text \<open>No Decoder\<close>, or the text \<open>Err:\<close> followed by the message of the exception:
  a malformed id, a malformed data token and every exception of the decode routine end
  in that text, none leaves \<open>decode\<close>.
\<close>

theorem decode_never_raises:
  "((\<exists>m. decode cid data = RDict m) \<or> decode cid data = RStr ''No Decoder''
      \<or> (\<exists>e. decode cid data = RStr (''Err: '' @ str_exn e)))
   \<and> (\<forall>e. int16 cid = Inl e \<longrightarrow> decode cid data = RStr (''Err: '' @ str_exn e))
   \<and> (\<forall>n e. int16 cid = Inr n \<and> ints16 data = Inl e
         \<longrightarrow> decode cid data = RStr (''Err: '' @ str_exn e))
   \<and> (\<forall>n bs f e. int16 cid = Inr n \<and> ints16 data = Inr bs \<and> map_of DECODER_MAP n = Some f
         \<and> f bs = Inl e \<longrightarrow> decode cid data = RStr (''Err: '' @ str_exn e))"
  by (auto simp: decode_def split: sum.splits option.splits)

theorem decode_never_raises_witness:
  "decode ''0x100'' [] = RStr ''Err: list index out of range''
   \<and> decode ''0x105'' [''1FF''] = RStr ''Err: bytes must be in range(0, 256)''
   \<and> decode ''0x181'' [''ZZ''] = RStr (''Err: '' @ str_exn (ValueError_literal ''ZZ''))
   \<and> decode ''xyz'' [] = RStr (''Err: '' @ str_exn (ValueError_literal ''xyz''))
   \<and> ((\<exists>m. decode ''0x100'' [] = RDict m) \<or> decode ''0x100'' [] = RStr ''No Decoder''
      \<or> (\<exists>e. decode ''0x100'' [] = RStr (''Err: '' @ str_exn e)))"
proof -
  have "decode ''0x100'' [] = RStr ''Err: list index out of range''"
    by (simp add: decode_def int16_eval DECODER_MAP_def decode_acu_precharge_def str_exn_def)
  moreover have "decode ''0x105'' [''1FF''] = RStr ''Err: bytes must be in range(0, 256)''"
    by (simp add: decode_def int16_eval DECODER_MAP_def decode_acu_info_1_def bytes_hex_def
        all_bytes_def str_exn_def)
  moreover have "decode ''0x181'' [''ZZ''] = RStr (''Err: '' @ str_exn (ValueError_literal ''ZZ''))"
    by (simp add: decode_def int16_eval)
  moreover have "decode ''xyz'' [] = RStr (''Err: '' @ str_exn (ValueError_literal ''xyz''))"
    by (simp add: decode_def int16_eval)
  ultimately show ?thesis using decode_never_raises [of "''0x100''" "[]"] by simp
qed

lemma ivt_in_float_range:
  assumes "all_bytes bs"
  shows "\<bar>parse_ivt_int40 bs\<bar> < 2 ^ 53"
proof -
  have "\<bar>parse_ivt_int40 bs\<bar> \<le> 2 ^ 39"
    using parse_ivt_int40_range [OF assms] by linarith
  then show ?thesis by simp
qed

lemma acu_info_1_bytes: "all_bytes bs \<Longrightarrow> \<exists>m. decode_acu_info_1 bs = Inr m"
  by (simp add: decode_acu_info_1_def bytes_hex_def)

lemma acu_info_2_bytes: "all_bytes bs \<Longrightarrow> \<exists>m. decode_acu_info_2 bs = Inr m"
  by (simp add: decode_acu_info_2_def bytes_hex_def)

lemma vcu_connected_nonempty: "bs \<noteq> [] \<Longrightarrow> \<exists>m. decode_vcu_connected bs = Inr m"
  by (cases bs) (simp_all add: decode_vcu_connected_def)

lemma vcu_reply_nonempty: "bs \<noteq> [] \<Longrightarrow> \<exists>m. decode_vcu_reply bs = Inr m"
  by (cases bs) (simp_all add: decode_vcu_reply_def)

lemma ivt_wattage_bytes: "all_bytes bs \<Longrightarrow> \<exists>m. decode_ivt_wattage bs = Inr m"
  using int_mul_float_scale [OF ivt_in_float_range, of bs 1]
  by (simp add: decode_ivt_wattage_def ivt_text_def)

lemma ivt_current_counter_bytes: "all_bytes bs \<Longrightarrow> \<exists>m. decode_ivt_current_counter bs = Inr m"
  using int_mul_float_scale [OF ivt_in_float_range, of bs 1]
  by (simp add: decode_ivt_current_counter_def scaled_def)

lemma ivt_wattage_counter_bytes: "all_bytes bs \<Longrightarrow> \<exists>m. decode_ivt_wattage_counter bs = Inr m"
  using int_mul_float_scale [OF ivt_in_float_range, of bs 1]
  by (simp add: decode_ivt_wattage_counter_def scaled_def)

lemma decode_registered:
  assumes "int16 cid = Inr n" "map_of DECODER_MAP n = Some f"
  shows "decode cid data \<noteq> RStr ''No Decoder''"
    and "ints16 data = Inr bs \<Longrightarrow> \<exists>m. f bs = Inr m \<Longrightarrow> \<exists>m. decode cid data = RDict m"
  using assms by (auto simp: decode_def split: sum.splits)

lemma get_name_unnamed:
  assumes "int16 cid = Inr n" "map_of CAN_ID_NAMES n = None"
  shows "get_name cid = ''Unknown ID''"
  using assms by (simp add: get_name_def)

text \<open>
  Claim C10. The keys of \<open>CAN_ID_NAMES\<close> are a strict subset of the keys of \<open>DECODER_MAP\<close>.
  For each of the ids 0x105, 0x106, 0x175, 0x176, 0x526, 0x527 and 0x528, \<open>get_name\<close> returns
  \<open>Unknown ID\<close> while \<open>decode\<close> never returns \<open>No Decoder\<close>, and returns a dictionary
  of signals for every payload of one or more byte tokens.
\<close>

theorem unnamed_ids_have_decoders:
  "set (map fst CAN_ID_NAMES) \<subset> set (map fst DECODER_MAP)
   \<and> (cid \<in> set [''0x105'', ''0x106'', ''0x175'', ''0x176'', ''0x526'', ''0x527'', ''0x528''] \<longrightarrow>
        get_name cid = ''Unknown ID'' \<and> decode cid data \<noteq> RStr ''No Decoder''
        \<and> (\<forall>bs. ints16 data = Inr bs \<and> bs \<noteq> [] \<and> all_bytes bs
               \<longrightarrow> (\<exists>m. decode cid data = RDict m)))"
proof (intro conjI impI allI)
  have "set (map fst CAN_ID_NAMES) \<subseteq> set (map fst DECODER_MAP)"
    by (simp add: CAN_ID_NAMES_def DECODER_MAP_def)
  moreover have "0x105 \<in> set (map fst DECODER_MAP)" "0x105 \<notin> set (map fst CAN_ID_NAMES)"
    by (simp_all add: CAN_ID_NAMES_def DECODER_MAP_def)
  ultimately show "set (map fst CAN_ID_NAMES) \<subset> set (map fst DECODER_MAP)"
    by blast
next
  assume c: "cid \<in> set [''0x105'', ''0x106'', ''0x175'', ''0x176'', ''0x526'', ''0x527'', ''0x528'']"
  then obtain n where n: "int16 cid = Inr n"
    "n \<in> {0x105, 0x106, 0x175, 0x176, 0x526, 0x527, 0x528}"
    by (auto simp: int16_eval)
  have "map_of CAN_ID_NAMES n = None"
    using n(2) by (auto simp: CAN_ID_NAMES_def)
  then show "get_name cid = ''Unknown ID''"
    by (rule get_name_unnamed [OF n(1)])
  from n obtain f where f: "map_of DECODER_MAP n = Some f"
    by (auto simp: DECODER_MAP_def)
  show "decode cid data \<noteq> RStr ''No Decoder''"
    by (rule decode_registered(1) [OF n(1) f])
  fix bs
  assume b: "ints16 data = Inr bs \<and> bs \<noteq> [] \<and> all_bytes bs"
  have "\<exists>m. f bs = Inr m"
    using n(2) f b
    by (auto simp: DECODER_MAP_def acu_info_1_bytes acu_info_2_bytes vcu_connected_nonempty
        vcu_reply_nonempty ivt_wattage_bytes ivt_current_counter_bytes ivt_wattage_counter_bytes)
  then show "\<exists>m. decode cid data = RDict m"
    using decode_registered(2) [OF n(1) f] b by blast
qed

theorem unnamed_ids_have_decoders_witness:
  "''0x175'' \<in> set [''0x105'', ''0x106'', ''0x175'', ''0x176'', ''0x526'', ''0x527'', ''0x528'']
   \<and> ints16 [''01''] = Inr [1] \<and> [1 :: int] \<noteq> [] \<and> all_bytes [1]
   \<and> get_name ''0x175'' = ''Unknown ID''
   \<and> decode ''0x175'' [''01''] = RDict [(''VCU'', VBool True)]
   \<and> (\<exists>m. decode ''0x175'' [''01''] = RDict m)"
proof -
  have a: "ints16 [''01''] = Inr [1]" by (simp add: int16_eval)
  have b: "all_bytes [1]" by (simp add: all_bytes_def)
  have d: "decode ''0x175'' [''01''] = RDict [(''VCU'', VBool True)]"
    by (simp add: decode_def int16_eval DECODER_MAP_def decode_vcu_connected_def)
  show ?thesis
    using unnamed_ids_have_decoders [of "''0x175''" "[''01'']"] a b d by simp
qed

text \<open>
  Claim C1, as stated, fails: on a byte list below the length its fields need,
  \<open>decode_torque_command\<close>, \<open>decode_inverter_igbt_temp\<close> and \<open>decode_ui_voltages\<close> return their
  ordinary signals with the value 0 and no short-message, and \<open>decode_acu_precharge\<close>
  indexes the empty list and raises.
\<close>

theorem short_payload_counterexample:
  "decode_torque_command [] = Inr [(''Torque Cmd'', VInt 0)]
   \<and> \<not> is_short_message (decode_torque_command [])
   \<and> decode_inverter_igbt_temp [0x01] = Inr [(''IGBT Temp (L)'', VFloat 0)]
   \<and> \<not> is_short_message (decode_inverter_igbt_temp [0x01])
   \<and> \<not> is_short_message (decode_ui_voltages [])
   \<and> decode_acu_precharge [] = Inl IndexError
   \<and> \<not> is_short_message (decode_acu_precharge [])"
  by (simp add: decode_torque_command_def decode_inverter_igbt_temp_def decode_ui_voltages_def
      decode_acu_precharge_def parse_le_int16_def parse_be_int16_def scaled_def
      int_mul_float_def float_of_int_def fmul_def rd_def)

lemma int_mul_float_zero: "int_mul_float 0 c = Inr 0"
  by (simp add: int_mul_float_def float_of_int_def fmul_def rd_def)

lemma fmt_fixed_zero: "fmt_fixed 2 0 = ''0.00''" "fmt_fixed (Suc 0) 0 = ''0.0''"
  by (simp_all add: fmt_fixed_def rne_def)

lemma ui_voltage_field:
  assumes "all_bytes data"
  shows "int_mul_float (parse_be_int16 data off) c = Inr (fmul (of_int (parse_be_int16 data off)) c)"
proof -
  have "\<bar>parse_be_int16 data off\<bar> \<le> 32768"
    using parse_be_int16_range [OF assms, of off] by linarith
  then have "\<bar>parse_be_int16 data off\<bar> < 2 ^ 53" by simp
  then show ?thesis by (rule int_mul_float_scale)
qed

text \<open>
  Claim C1, amended. The routines with a length guard of their own return the structured
  short-message: \<open>decode_inverter_multiplexed\<close> below three bytes and
  \<open>decode_ui_temperatures\<close> below seven. The routines built on \<open>parse_le_int16\<close>,
  \<open>parse_be_int16\<close> and \<open>parse_ivt_int40\<close> read no byte out of range either, but return no
  short-message: the helper checks the length and gives 0 for a field that is not there, and
  the routine returns its signals computed from that 0.
\<close>

theorem short_payload_behaviour:
  "(length data < 3 \<longrightarrow>
      decode_inverter_multiplexed data = Inr [(''Error'', VStr ''Len<3'')]
      \<and> is_short_message (decode_inverter_multiplexed data))
   \<and> (length data < 7 \<longrightarrow>
      decode_ui_temperatures data = Inr [(''Error'', VStr ''Short'')]
      \<and> is_short_message (decode_ui_temperatures data))
   \<and> (length data < 3 \<longrightarrow>
      decode_torque_command data = Inr [(''Torque Cmd'', VInt 0)]
      \<and> decode_inverter_igbt_temp data = Inr [(''IGBT Temp (L)'', VFloat 0)])
   \<and> (length data < 8 \<and> all_bytes data \<longrightarrow>
      decode_ui_voltages data =
        Inr [(''UI V1'', VFloat (fmul (of_int (parse_be_int16 data 2)) (rd (1 / 100)))),
             (''UI V2'', VFloat (fmul (of_int (parse_be_int16 data 4)) (rd (1 / 100)))),
             (''UI V3'', VFloat 0)])
   \<and> (length data < 4 \<longrightarrow>
      decode_ui_voltages data =
        Inr [(''UI V1'', VFloat 0), (''UI V2'', VFloat 0), (''UI V3'', VFloat 0)])
   \<and> (length data < 6 \<longrightarrow>
      decode_ivt_current data = Inr [(''Current'', VStr ''0.00 A'')]
      \<and> decode_ivt_voltage_vehicle data = Inr [(''Volts Veh'', VStr ''0.00 V'')]
      \<and> decode_ivt_voltage_pack data = Inr [(''Volts Pack'', VStr ''0.00 V'')]
      \<and> decode_ivt_wattage data = Inr [(''Power'', VStr ''0.0 W'')]
      \<and> decode_ivt_current_counter data = Inr [(''Ah'', VFloat 0)]
      \<and> decode_ivt_wattage_counter data = Inr [(''Wh'', VFloat 0)])"
proof (intro conjI impI)
  assume "length data < 3"
  then show "decode_inverter_multiplexed data = Inr [(''Error'', VStr ''Len<3'')]"
    "is_short_message (decode_inverter_multiplexed data)"
    by (simp_all add: decode_inverter_multiplexed_def)
next
  assume "length data < 7"
  then show "decode_ui_temperatures data = Inr [(''Error'', VStr ''Short'')]"
    "is_short_message (decode_ui_temperatures data)"
    by (simp_all add: decode_ui_temperatures_def)
next
  assume "length data < 3"
  then have "parse_le_int16 data 1 = 0" by (simp add: parse_le_int16_def)
  then show "decode_torque_command data = Inr [(''Torque Cmd'', VInt 0)]"
    "decode_inverter_igbt_temp data = Inr [(''IGBT Temp (L)'', VFloat 0)]"
    by (simp_all add: decode_torque_command_def decode_inverter_igbt_temp_def scaled_def
        int_mul_float_zero)
next
  assume a: "length data < 8 \<and> all_bytes data"
  then have "parse_be_int16 data 6 = 0" by (simp add: parse_be_int16_def)
  then have "int_mul_float (parse_be_int16 data 6) (rd (1 / 100)) = Inr 0"
    by (simp only: int_mul_float_zero)
  then show "decode_ui_voltages data =
        Inr [(''UI V1'', VFloat (fmul (of_int (parse_be_int16 data 2)) (rd (1 / 100)))),
             (''UI V2'', VFloat (fmul (of_int (parse_be_int16 data 4)) (rd (1 / 100)))),
             (''UI V3'', VFloat 0)]"
    using a by (simp add: decode_ui_voltages_def ui_voltage_field)
next
  assume "length data < 4"
  then have "parse_be_int16 data 2 = 0" "parse_be_int16 data 4 = 0" "parse_be_int16 data 6 = 0"
    by (simp_all add: parse_be_int16_def)
  then show "decode_ui_voltages data =
        Inr [(''UI V1'', VFloat 0), (''UI V2'', VFloat 0), (''UI V3'', VFloat 0)]"
    by (simp add: decode_ui_voltages_def int_mul_float_zero)
next
  assume "length data < 6"
  then have z: "parse_ivt_int40 data = 0" by (simp add: parse_ivt_int40_def)
  show "decode_ivt_current data = Inr [(''Current'', VStr ''0.00 A'')]"
    "decode_ivt_voltage_vehicle data = Inr [(''Volts Veh'', VStr ''0.00 V'')]"
    "decode_ivt_voltage_pack data = Inr [(''Volts Pack'', VStr ''0.00 V'')]"
    "decode_ivt_wattage data = Inr [(''Power'', VStr ''0.0 W'')]"
    "decode_ivt_current_counter data = Inr [(''Ah'', VFloat 0)]"
    "decode_ivt_wattage_counter data = Inr [(''Wh'', VFloat 0)]"
    by (simp_all add: decode_ivt_current_def decode_ivt_voltage_vehicle_def
        decode_ivt_voltage_pack_def decode_ivt_wattage_def decode_ivt_current_counter_def
        decode_ivt_wattage_counter_def ivt_text_def scaled_def z int_mul_float_zero fmt_fixed_zero)
qed

theorem short_payload_behaviour_witness:
  "length [0x30, 0x58 :: int] < 3 \<and> length [0x30, 0x58 :: int] < 8 \<and> all_bytes [0x30, 0x58]
   \<and> decode_inverter_multiplexed [0x30, 0x58] = Inr [(''Error'', VStr ''Len<3'')]
   \<and> decode_ui_temperatures [0x30, 0x58] = Inr [(''Error'', VStr ''Short'')]
   \<and> decode_torque_command [0x30, 0x58] = Inr [(''Torque Cmd'', VInt 0)]
   \<and> decode_ui_voltages [0x30, 0x58]
       = Inr [(''UI V1'', VFloat 0), (''UI V2'', VFloat 0), (''UI V3'', VFloat 0)]
   \<and> decode_ivt_current [0x30, 0x58] = Inr [(''Current'', VStr ''0.00 A'')]"
  using short_payload_behaviour [of "[0x30, 0x58]"]
  by (simp add: all_bytes_def parse_be_int16_def fmul_def rd_def)

section \<open>\<open>parse_frame\<close>: rows and statistics\<close>

lemma freq_text_first: "freq_text now now = ''-''"
  by (simp add: freq_text_def fsub_pos_iff)



lemma map_of_update_same: "map_of (AList.update k v al) k = Some v"
  by (simp add: update_conv')

lemma parse_frame_stats:
  assumes "2 \<le> length (tokens line)"
    and "value_text (decode (canon_id (tokens line ! 0)) (drop 2 (tokens line))) = Inr v"
  shows "map_of (stats (parse_frame ts now line st)) (canon_id (tokens line ! 0))
         = Some \<lparr>stat_c = (case map_of (stats st) (canon_id (tokens line ! 0)) of
                              Some p \<Rightarrow> stat_c p | None \<Rightarrow> 0) + 1,
                  stat_t = now\<rparr>"
  using assms by (simp add: parse_frame_def Let_def map_of_update_same split: option.splits)

lemma parse_frame_row:
  assumes "2 \<le> length (tokens line)"
    and "value_text (decode (canon_id (tokens line ! 0)) (drop 2 (tokens line))) = Inr v"
  shows "map_of (tree (parse_frame ts now line st)) (canon_id (tokens line ! 0))
         = Some \<lparr>col_id = canon_id (tokens line ! 0),
                  col_name = get_name (canon_id (tokens line ! 0)),
                  col_dlc = tokens line ! 1,
                  col_data = join '' '' (drop 2 (tokens line)),
                  col_value = v,
                  col_freq = (case map_of (stats st) (canon_id (tokens line ! 0)) of
                                Some p \<Rightarrow> freq_text now (stat_t p) | None \<Rightarrow> ''-''),
                  col_count = (case map_of (stats st) (canon_id (tokens line ! 0)) of
                                Some p \<Rightarrow> stat_c p | None \<Rightarrow> 0) + 1,
                  col_time = ts\<rparr>"
  using assms
  by (simp add: parse_frame_def Let_def map_of_update_same freq_text_first split: option.splits)

lemma parse_frame_log:
  assumes "2 \<le> length (tokens line)"
    and "value_text (decode (canon_id (tokens line ! 0)) (drop 2 (tokens line))) = Inr v"
  shows "txt_log (parse_frame ts now line st)
         = txt_log st @ [''['' @ ts @ ''] '' @ canon_id (tokens line ! 0) @ '': '' @ v @ [CHR 0x0A]]"
  using assms by (simp add: parse_frame_def Let_def)

lemma parse_frame_dropped:
  assumes "length (tokens line) < 2"
  shows "parse_frame ts now line st = st"
  using assms by (simp add: parse_frame_def Let_def)

lemma parse_frame_unwritten:
  assumes "value_text (decode (canon_id (tokens line ! 0)) (drop 2 (tokens line))) = Inl e"
  shows "parse_frame ts now line st = st"
  using assms by (simp add: parse_frame_def Let_def)

text \<open>The only raise of the value text is the digit limit, on an integer of a dictionary.\<close>

lemma str_val_raise:
  "str_val v = Inl e \<Longrightarrow>
     e = ValueError_digits \<and> (\<exists>n. v = VInt n \<and> 10 ^ max_str_digits \<le> \<bar>n\<bar>)"
  by (cases v) (simp_all add: str_int_def split: if_splits)

lemma items_text_raise:
  "items_text m = Inl e \<Longrightarrow>
     e = ValueError_digits \<and> (\<exists>k n. (k, VInt n) \<in> set m \<and> 10 ^ max_str_digits \<le> \<bar>n\<bar>)"
proof (induction m)
  case Nil
  then show ?case by simp
next
  case (Cons kv m)
  obtain k v where kv: "kv = (k, v)" by (cases kv)
  show ?case
  proof (cases "str_val v")
    case (Inl e')
    then show ?thesis using Cons.prems str_val_raise [OF Inl] by (auto simp: kv)
  next
    case (Inr s)
    then have "items_text m = Inl e" using Cons.prems by (simp add: kv split: sum.splits)
    then show ?thesis using Cons.IH by auto
  qed
qed

lemma value_text_raise:
  assumes "value_text dec = Inl e"
  shows "e = ValueError_digits
         \<and> (\<exists>m k n. dec = RDict m \<and> (k, VInt n) \<in> set m \<and> 10 ^ max_str_digits \<le> \<bar>n\<bar>)"
proof (cases dec)
  case (RDict m)
  then have "items_text m = Inl e" using assms by (simp add: value_text_def split: sum.splits)
  then show ?thesis using items_text_raise RDict by blast
next
  case (RStr s)
  then show ?thesis using assms by (simp add: value_text_def)
qed

lemma items_text_small:
  assumes "\<And>k n. (k, VInt n) \<in> set m \<Longrightarrow> \<bar>n\<bar> < 10 ^ max_str_digits"
  shows "\<exists>ss. items_text m = Inr ss"
proof (cases "items_text m")
  case (Inl e)
  then obtain k n where "(k, VInt n) \<in> set m" "10 ^ max_str_digits \<le> \<bar>n\<bar>"
    using items_text_raise by blast
  then show ?thesis using assms by fastforce
next
  case (Inr ss)
  then show ?thesis by blast
qed

lemma value_text_err: "value_text (RStr s) = Inr s"
  by (simp add: value_text_def)

text \<open>A payload of bytes never meets the digit limit: its line always gets a value text.\<close>

lemma below_digit_limit:
  fixes n :: int
  assumes "\<bar>n\<bar> < 100000"
  shows "\<bar>n\<bar> < 10 ^ max_str_digits"
proof -
  have "(10 :: int) ^ 5 \<le> 10 ^ max_str_digits"
    by (rule power_increasing) (simp_all add: max_str_digits_def)
  then show ?thesis using assms by simp
qed

lemma str_int_small:
  assumes "\<bar>n\<bar> < 100000"
  shows "str_int n = Inr (if n < 0 then ''-'' @ digits_of 10 (- n) else digits_of 10 n)"
  using below_digit_limit [OF assms] by (simp add: str_int_def)

lemma byte_items:
  assumes "\<And>k n. (k, VInt n) \<in> set m \<Longrightarrow> \<bar>n\<bar> < 100000"
  shows "\<exists>ss. items_text m = Inr ss"
  using assms by (intro items_text_small below_digit_limit) blast

lemma mux_items:
  assumes "all_bytes bs" "decode_inverter_multiplexed bs = Inr m"
  shows "\<exists>ss. items_text m = Inr ss"
proof (rule byte_items)
  fix k n
  assume "(k, VInt n) \<in> set m"
  then have "n = parse_le_int16 bs 1"
    using assms(2)
    by (auto simp: decode_inverter_multiplexed_def scaled_def Let_def
        split: if_splits sum.splits)
  then show "\<bar>n\<bar> < 100000"
    using parse_le_int16_range [OF assms(1), of 1] by linarith
qed

lemma torque_items:
  assumes "all_bytes bs" "decode_torque_command bs = Inr m"
  shows "\<exists>ss. items_text m = Inr ss"
proof (rule byte_items)
  fix k n
  assume "(k, VInt n) \<in> set m"
  then have "n = parse_le_int16 bs 1"
    using assms(2) by (auto simp: decode_torque_command_def)
  then show "\<bar>n\<bar> < 100000"
    using parse_le_int16_range [OF assms(1), of 1] by linarith
qed

lemma ui_temperatures_items:
  assumes "all_bytes bs" "decode_ui_temperatures bs = Inr m"
  shows "\<exists>ss. items_text m = Inr ss"
proof (rule byte_items)
  fix k n
  assume "(k, VInt n) \<in> set m"
  then have "7 \<le> length bs \<and> (n = bs ! 2 \<or> n = bs ! 3 \<or> n = bs ! 4)"
    using assms(2) by (auto simp: decode_ui_temperatures_def split: if_splits)
  then show "\<bar>n\<bar> < 100000"
    using all_bytes_nth [OF assms(1), of 2] all_bytes_nth [OF assms(1), of 3]
      all_bytes_nth [OF assms(1), of 4] by auto
qed

lemma acu_precharge_items:
  assumes "all_bytes bs" "decode_acu_precharge bs = Inr m"
  shows "\<exists>ss. items_text m = Inr ss"
proof (rule byte_items)
  fix k n
  assume "(k, VInt n) \<in> set m"
  then have "bs \<noteq> [] \<and> n = bs ! 0"
    using assms(2) by (auto simp: decode_acu_precharge_def split: list.splits)
  then show "\<bar>n\<bar> < 100000"
    using all_bytes_nth [OF assms(1), of 0] by auto
qed

lemma no_int_items:
  assumes "\<And>k n. (k, VInt n) \<notin> set m"
  shows "\<exists>ss. items_text m = Inr ss"
  using assms by (intro byte_items) blast

lemma registered_items:
  assumes "map_of DECODER_MAP n = Some f" "all_bytes bs" "f bs = Inr m"
  shows "\<exists>ss. items_text m = Inr ss"
proof -
  consider "f = decode_inverter_multiplexed" | "f = decode_torque_command"
    | "f = decode_ui_temperatures" | "f = decode_acu_precharge"
    | "f = decode_inverter_igbt_temp" | "f = decode_ui_voltages" | "f = decode_acu_info_1"
    | "f = decode_acu_info_2" | "f = decode_ivt_current" | "f = decode_ivt_voltage_vehicle"
    | "f = decode_ivt_voltage_pack" | "f = decode_ivt_wattage" | "f = decode_ivt_current_counter"
    | "f = decode_ivt_wattage_counter" | "f = decode_vcu_connected" | "f = decode_vcu_reply"
    using assms(1) by (auto simp: DECODER_MAP_def split: if_splits)
  then show ?thesis
  proof cases
    case 1 then show ?thesis using mux_items assms by blast
  next
    case 2 then show ?thesis using torque_items assms by blast
  next
    case 3 then show ?thesis using ui_temperatures_items assms by blast
  next
    case 4 then show ?thesis using acu_precharge_items assms by blast
  next
    case 5 then show ?thesis using assms(3)
      by (intro no_int_items) (auto simp: decode_inverter_igbt_temp_def scaled_def split: sum.splits)
  next
    case 6 then show ?thesis using assms(3)
      by (intro no_int_items) (auto simp: decode_ui_voltages_def split: sum.splits)
  next
    case 7 then show ?thesis using assms(3)
      by (intro no_int_items) (auto simp: decode_acu_info_1_def split: sum.splits)
  next
    case 8 then show ?thesis using assms(3)
      by (intro no_int_items) (auto simp: decode_acu_info_2_def split: sum.splits)
  next
    case 9 then show ?thesis using assms(3)
      by (intro no_int_items) (auto simp: decode_ivt_current_def ivt_text_def split: sum.splits)
  next
    case 10 then show ?thesis using assms(3)
      by (intro no_int_items)
        (auto simp: decode_ivt_voltage_vehicle_def ivt_text_def split: sum.splits)
  next
    case 11 then show ?thesis using assms(3)
      by (intro no_int_items) (auto simp: decode_ivt_voltage_pack_def ivt_text_def split: sum.splits)
  next
    case 12 then show ?thesis using assms(3)
      by (intro no_int_items) (auto simp: decode_ivt_wattage_def ivt_text_def split: sum.splits)
  next
    case 13 then show ?thesis using assms(3)
      by (intro no_int_items)
        (auto simp: decode_ivt_current_counter_def scaled_def split: sum.splits)
  next
    case 14 then show ?thesis using assms(3)
      by (intro no_int_items)
        (auto simp: decode_ivt_wattage_counter_def scaled_def split: sum.splits)
  next
    case 15 then show ?thesis using assms(3)
      by (intro no_int_items) (auto simp: decode_vcu_connected_def split: list.splits)
  next
    case 16 then show ?thesis using assms(3)
      by (intro no_int_items) (auto simp: decode_vcu_reply_def split: list.splits)
  qed
qed

lemma byte_payload_written:
  assumes "ints16 data = Inr bs" "all_bytes bs"
  shows "\<exists>v. value_text (decode cid data) = Inr v"
proof (cases "decode cid data")
  case (RStr s)
  then show ?thesis by (simp add: value_text_def)
next
  case (RDict m)
  then obtain n f where "map_of DECODER_MAP n = Some f" "f bs = Inr m"
    using assms(1) by (auto simp: decode_def split: sum.splits option.splits)
  then obtain ss where "items_text m = Inr ss"
    using registered_items assms(2) by blast
  then show ?thesis using RDict by (simp add: value_text_def)
qed

text \<open>
  A data token of 3572 or more digits \<open>F\<close> is a hexadecimal number whose decimal text is over
  the limit of 4300 digits: \<open>10^4300 < 16^3572\<close>.
\<close>

lemma pow5_4300: "(5 :: int) ^ 4300 < 2 ^ 9988"
proof -
  have a: "(5 :: int) ^ 31 < 2 ^ 72" by simp
  have b: "(5 :: int) ^ 22 < 2 ^ 52" by simp
  have e1: "(4300 :: nat) = 31 * 138 + 22" by simp
  have e2: "(9988 :: nat) = 72 * 138 + 52" by simp
  have "((5 :: int) ^ 31) ^ 138 < (2 ^ 72) ^ 138"
    using a by (rule power_strict_mono) simp_all
  moreover have "(0 :: int) < (2 ^ 72) ^ 138" by (rule zero_less_power) simp
  moreover have "(0 :: int) \<le> (5 ^ 31) ^ 138" by (rule zero_le_power) simp
  moreover have "(0 :: int) \<le> 5 ^ 22" by (rule zero_le_power) simp
  ultimately have "((5 :: int) ^ 31) ^ 138 * 5 ^ 22 < (2 ^ 72) ^ 138 * 2 ^ 52"
    using b by (intro mult_strict_mono) 
  then show ?thesis
    by (simp only: e1 e2 power_add power_mult)
qed

lemma pow10_4300: "(10 :: int) ^ 4300 < 16 ^ 3572"
proof -
  have t: "(2 * 5 :: int) = 10" by simp
  have p: "(0 :: int) < 2 ^ 4300" by (rule zero_less_power) simp
  have s: "(2 :: int) ^ 4 = 16" by simp
  have n: "(4300 :: nat) + 9988 = 4 * 3572" by simp
  have "(10 :: int) ^ 4300 = (2 * 5) ^ 4300"
    by (rule arg_cong [where f = "\<lambda>x. x ^ 4300"]) (rule t [symmetric])
  also have "\<dots> = 2 ^ 4300 * 5 ^ 4300" by (rule power_mult_distrib)
  also have "\<dots> < 2 ^ 4300 * 2 ^ 9988"
    using pow5_4300 p by (rule mult_strict_left_mono)
  also have "\<dots> = (2 :: int) ^ (4300 + 9988)" by (rule power_add [symmetric])
  also have "\<dots> = (2 :: int) ^ (4 * 3572)" by (rule arg_cong [where f = "\<lambda>k. 2 ^ k"]) (rule n)
  also have "\<dots> = ((2 :: int) ^ 4) ^ 3572" by (rule power_mult)
  also have "\<dots> = 16 ^ 3572"
    by (rule arg_cong [where f = "\<lambda>x. x ^ 3572"]) (rule s)
  finally show ?thesis .
qed

lemma replace_absent:
  assumes "old \<noteq> []" "hd old \<notin> set s"
  shows "replace_str old new s = s"
  using assms(2)
proof (induction s)
  case Nil
  then show ?case by simp
next
  case (Cons c cs)
  obtain x xs where x: "old = x # xs" using assms(1) by (cases old) auto
  have "take (length old) (c # cs) \<noteq> old" using Cons.prems by (auto simp: x)
  then show ?case using Cons by simp
qed

lemma split_ws_word:
  assumes "\<forall>c \<in> set s. \<not> py_space c" "s \<noteq> [] \<or> cur \<noteq> []"
  shows "split_ws cur s = [cur @ s]"
  using assms by (induction s arbitrary: cur) auto

lemma hex_digit_F: "hex_digit CHR ''F'' = Some 15"
  by (simp add: hex_digit_def)

lemma scan_digits_F:
  "scan_digits acc False (replicate k CHR ''F'') = Some ((acc + 1) * 16 ^ k - 1)"
proof (induction k arbitrary: acc)
  case 0
  then show ?case by simp
next
  case (Suc k)
  have "scan_digits acc False (replicate (Suc k) CHR ''F'')
        = scan_digits (16 * acc + 15) False (replicate k CHR ''F'')"
    by (simp add: hex_digit_F)
  also have "\<dots> = Some ((16 * acc + 15 + 1) * 16 ^ k - 1)" by (rule Suc.IH)
  also have "(16 * acc + 15 + 1) * 16 ^ k = (acc + 1) * 16 ^ Suc k" by (simp add: algebra_simps)
  finally show ?case .
qed

lemma skip_prefix_other: "c \<noteq> CHR ''0'' \<Longrightarrow> skip_prefix (c # r) = c # r"
  by (cases r) simp_all

lemma strip_F: "strip (CHR ''F'' # replicate k CHR ''F'') = CHR ''F'' # replicate k CHR ''F''"
proof -
  have d: "dropWhile int_space (replicate (Suc k) CHR ''F'') = replicate (Suc k) CHR ''F''"
    by (simp add: int_space_def)
  have "strip (replicate (Suc k) CHR ''F'') = replicate (Suc k) CHR ''F''"
    by (simp only: strip_def d rev_replicate)
  then show ?thesis by simp
qed

lemma int16_F: "int16 (CHR ''F'' # replicate k CHR ''F'') = Inr (16 ^ Suc k - 1)"
proof -
  have "hex_body (CHR ''F'' # replicate k CHR ''F'')
        = scan_digits 0 False (replicate (Suc k) CHR ''F'')"
    by (simp add: hex_body_def)
  also have "\<dots> = Some ((0 + 1) * 16 ^ Suc k - 1)" by (rule scan_digits_F)
  finally have "hex_body (CHR ''F'' # replicate k CHR ''F'') = Some (16 ^ Suc k - 1)" by simp
  then show ?thesis
    by (simp add: int16_def strip_F skip_prefix_other del: power_Suc)
qed

lemma long_token_tokens:
  "tokens (''0x100 1 '' @ CHR ''F'' # replicate k CHR ''F'')
   = [''0x100'', ''1'', CHR ''F'' # replicate k CHR ''F'']"
proof -
  let ?line = "''0x100 1 '' @ CHR ''F'' # replicate k CHR ''F''"
  have r: "replace_str '','' '' '' ?line = ?line" "replace_str ''ID:'' '''' ?line = ?line"
    "replace_str ''DATA:'' '''' ?line = ?line"
    by (rule replace_absent; simp)+
  have w: "split_ws ''F'' (replicate k CHR ''F'') = [''F'' @ replicate k CHR ''F'']"
    by (rule split_ws_word) (simp_all add: py_space_def)
  have "split ?line = [''0x100'', ''1'', CHR ''F'' # replicate k CHR ''F'']"
    by (simp add: split_def py_space_def w)
  then show ?thesis by (simp only: tokens_def r)
qed

lemma long_token_over_limit:
  assumes "3571 \<le> k"
  shows "10 ^ max_str_digits \<le> \<bar>(16 :: int) ^ Suc k - 1\<bar>"
proof -
  define A :: int where "A = 10 ^ 4300"
  define B :: int where "B = 16 ^ 3572"
  define C :: int where "C = 16 ^ Suc k"
  have "3572 \<le> Suc k" using assms by simp
  then have "(16 :: int) ^ 3572 \<le> 16 ^ Suc k" by (rule power_increasing) simp
  then have bc: "B \<le> C" by (simp only: B_def C_def)
  have ab: "A < B" unfolding A_def B_def by (rule pow10_4300)
  have "0 < A" unfolding A_def by (rule zero_less_power) simp
  then have "A \<le> \<bar>C - 1\<bar>" using ab bc by linarith
  then show ?thesis by (simp only: A_def C_def max_str_digits_def)
qed

lemma long_token_value:
  assumes "3571 \<le> k"
  shows "value_text (decode ''0x100'' [CHR ''F'' # replicate k CHR ''F'']) = Inl ValueError_digits"
proof -
  have i: "int16 ''0x100'' = Inr 0x100" by (simp add: int16_eval)
  have m: "map_of DECODER_MAP 0x100 = Some decode_acu_precharge" by (simp add: DECODER_MAP_def)
  have d: "decode ''0x100'' [CHR ''F'' # replicate k CHR ''F'']
           = RDict [(''Precharge'', VInt (16 ^ Suc k - 1))]"
    by (simp add: decode_def i m int16_F decode_acu_precharge_def del: power_Suc)
  show ?thesis
    unfolding d using long_token_over_limit [OF assms]
    by (simp add: value_text_def str_int_def del: power_Suc)
qed

lemma long_token_line:
  "tokens (''0x100 1 '' @ replicate 3572 CHR ''F'') = [''0x100'', ''1'', replicate 3572 CHR ''F'']
   \<and> value_text (decode ''0x100'' [replicate 3572 CHR ''F'']) = Inl ValueError_digits"
proof -
  have r: "replicate 3572 CHR ''F'' = CHR ''F'' # replicate 3571 CHR ''F''"
    by (simp add: replicate_num)
  show ?thesis
    unfolding r using long_token_tokens [of 3571] long_token_value [of 3571] by simp
qed



text \<open>
  Claim C5, as stated, fails: the line \<open>181 8 ZZ\<close> has three tokens, one of them not
  hexadecimal, and is not dropped. \<open>decode\<close> returns the text of the \<open>ValueError\<close>,
  which becomes the value of a new row, with a statistics entry and a log line.
\<close>

theorem non_hex_token_counterexample:
  "tokens ''181 8 ZZ'' = [''181'', ''8'', ''ZZ'']
   \<and> int16 ''ZZ'' = Inl (ValueError_literal ''ZZ'')
   \<and> parse_frame ''12:00:00.000'' 1000 ''181 8 ZZ'' init_ui =
       \<lparr>stats = [(''0x181'', \<lparr>stat_c = 1, stat_t = 1000\<rparr>)],
        tree = [(''0x181'',
                 \<lparr>col_id = ''0x181'', col_name = ''Inverter Status (Mux)'', col_dlc = ''8'',
                  col_data = ''ZZ'',
                  col_value = ''Err: invalid literal for int() with base 16: ''
                              @ [CHR 0x27, CHR ''Z'', CHR ''Z'', CHR 0x27],
                  col_freq = ''-'', col_count = 1, col_time = ''12:00:00.000''\<rparr>)],
        txt_log = [''[12:00:00.000] 0x181: Err: invalid literal for int() with base 16: ''
                   @ [CHR 0x27, CHR ''Z'', CHR ''Z'', CHR 0x27, CHR 0x0A]]\<rparr>
   \<and> parse_frame ''12:00:00.000'' 1000 ''181 8 ZZ'' init_ui \<noteq> init_ui"
  by (simp add: parse_frame_def init_ui_def line_eval decode_def get_name_def int16_eval
      CAN_ID_NAMES_def str_exn_def repr_str_def repr_char_def float_eval)

text \<open>
  Claim C5, amended. A line with fewer than two tokens after the normalisation is dropped:
  \<open>parse_frame\<close> leaves statistics, tree and log as they are. A line with two or more
  tokens is dropped in one case only: \<open>decode\<close> returns a dictionary with an integer of
  more than 4300 decimal digits, whose text the f-string cannot write; the \<open>ValueError\<close> is
  swallowed by \<open>except: pass\<close> before anything is changed. No payload of byte tokens
  gets there. Every other line with two or more tokens gets its row created or updated,
  its statistics entry set to the clock reading and one line in the log; an id or data
  token that is not hexadecimal makes the row's value the text \<open>Err:\<close> with the message
  of the exception, and the length code is shown as received and never parsed. In every
  case \<open>parse_frame\<close> returns.
\<close>

theorem line_dropping:
  "(length (tokens line) < 2 \<longrightarrow> parse_frame ts now line st = st)
   \<and> (2 \<le> length (tokens line) \<longrightarrow>
       (let cid = canon_id (tokens line ! 0); data = drop 2 (tokens line);
            st' = parse_frame ts now line st
        in (\<forall>e. value_text (decode cid data) = Inl e \<longrightarrow>
              st' = st \<and> e = ValueError_digits
              \<and> (\<exists>m k n. decode cid data = RDict m \<and> (k, VInt n) \<in> set m
                    \<and> 10 ^ max_str_digits \<le> \<bar>n\<bar>))
           \<and> (\<forall>v. value_text (decode cid data) = Inr v \<longrightarrow>
              (\<exists>r. map_of (tree st') cid = Some r \<and> col_dlc r = tokens line ! 1
                   \<and> col_value r = v)
              \<and> (\<exists>p. map_of (stats st') cid = Some p \<and> stat_t p = now)
              \<and> length (txt_log st') = length (txt_log st) + 1)
           \<and> (\<forall>e. int16 cid = Inl e \<or> (\<exists>n. int16 cid = Inr n \<and> ints16 data = Inl e)
                  \<longrightarrow> value_text (decode cid data) = Inr (''Err: '' @ str_exn e))
           \<and> (\<forall>bs. ints16 data = Inr bs \<and> all_bytes bs
                  \<longrightarrow> (\<exists>v. value_text (decode cid data) = Inr v))))"
proof (intro conjI impI)
  assume "length (tokens line) < 2"
  then show "parse_frame ts now line st = st" by (rule parse_frame_dropped)
next
  assume a: "2 \<le> length (tokens line)"
  define cid where "cid = canon_id (tokens line ! 0)"
  define data where "data = drop 2 (tokens line)"
  define st' where "st' = parse_frame ts now line st"
  have raise: "\<forall>e. value_text (decode cid data) = Inl e \<longrightarrow>
              st' = st \<and> e = ValueError_digits
              \<and> (\<exists>m k n. decode cid data = RDict m \<and> (k, VInt n) \<in> set m
                    \<and> 10 ^ max_str_digits \<le> \<bar>n\<bar>)"
    using parse_frame_unwritten [of line _ ts now st] value_text_raise [of "decode cid data"]
    by (auto simp: cid_def data_def st'_def)
  have written: "\<forall>v. value_text (decode cid data) = Inr v \<longrightarrow>
              (\<exists>r. map_of (tree st') cid = Some r \<and> col_dlc r = tokens line ! 1
                   \<and> col_value r = v)
              \<and> (\<exists>p. map_of (stats st') cid = Some p \<and> stat_t p = now)
              \<and> length (txt_log st') = length (txt_log st) + 1"
    using parse_frame_stats [OF a, of _ ts now st] parse_frame_row [OF a, of _ ts now st]
      parse_frame_log [OF a, of _ ts now st]
    by (auto simp: cid_def data_def st'_def)
  have err: "\<forall>e. int16 cid = Inl e \<or> (\<exists>n. int16 cid = Inr n \<and> ints16 data = Inl e)
                  \<longrightarrow> value_text (decode cid data) = Inr (''Err: '' @ str_exn e)"
    by (auto simp: value_text_def decode_def)
  have bytes: "\<forall>bs. ints16 data = Inr bs \<and> all_bytes bs
                  \<longrightarrow> (\<exists>v. value_text (decode cid data) = Inr v)"
    using byte_payload_written by blast
  show "let cid = canon_id (tokens line ! 0); data = drop 2 (tokens line);
            st' = parse_frame ts now line st
        in (\<forall>e. value_text (decode cid data) = Inl e \<longrightarrow>
              st' = st \<and> e = ValueError_digits
              \<and> (\<exists>m k n. decode cid data = RDict m \<and> (k, VInt n) \<in> set m
                    \<and> 10 ^ max_str_digits \<le> \<bar>n\<bar>))
           \<and> (\<forall>v. value_text (decode cid data) = Inr v \<longrightarrow>
              (\<exists>r. map_of (tree st') cid = Some r \<and> col_dlc r = tokens line ! 1
                   \<and> col_value r = v)
              \<and> (\<exists>p. map_of (stats st') cid = Some p \<and> stat_t p = now)
              \<and> length (txt_log st') = length (txt_log st) + 1)
           \<and> (\<forall>e. int16 cid = Inl e \<or> (\<exists>n. int16 cid = Inr n \<and> ints16 data = Inl e)
                  \<longrightarrow> value_text (decode cid data) = Inr (''Err: '' @ str_exn e))
           \<and> (\<forall>bs. ints16 data = Inr bs \<and> all_bytes bs
                  \<longrightarrow> (\<exists>v. value_text (decode cid data) = Inr v))"
    unfolding Let_def cid_def [symmetric] data_def [symmetric] st'_def [symmetric]
    using raise written err bytes by blast
qed

theorem line_dropping_witness:
  "length (tokens ''garbage'') < 2
   \<and> parse_frame ''12:00:00.000'' 1000 ''garbage'' init_ui = init_ui
   \<and> 2 \<le> length (tokens ''0x181 Q ZZ'')
   \<and> int16 ''0x181'' = Inr 0x181 \<and> ints16 [''ZZ''] = Inl (ValueError_literal ''ZZ'')
   \<and> (\<exists>r. map_of (tree (parse_frame ''12:00:00.000'' 1000 ''0x181 Q ZZ'' init_ui)) ''0x181''
            = Some r \<and> col_dlc r = ''Q''
          \<and> col_value r = ''Err: '' @ str_exn (ValueError_literal ''ZZ''))
   \<and> 2 \<le> length (tokens (''0x100 1 '' @ replicate 3572 CHR ''F''))
   \<and> value_text (decode ''0x100'' [replicate 3572 CHR ''F'']) = Inl ValueError_digits
   \<and> parse_frame ''12:00:00.000'' 1000 (''0x100 1 '' @ replicate 3572 CHR ''F'') init_ui = init_ui"
proof -
  have t1: "tokens ''garbage'' = [''garbage'']" by (simp add: tokens_def split_def py_space_def)
  have t2: "tokens ''0x181 Q ZZ'' = [''0x181'', ''Q'', ''ZZ'']"
    by (simp add: tokens_def split_def py_space_def)
  have i: "int16 ''0x181'' = Inr 0x181" "ints16 [''ZZ''] = Inl (ValueError_literal ''ZZ'')"
    by (simp_all add: int16_eval)
  have d: "value_text (decode ''0x181'' [''ZZ''])
           = Inr (''Err: '' @ str_exn (ValueError_literal ''ZZ''))"
    by (simp add: decode_def int16_eval value_text_def)
  have g: "parse_frame ''12:00:00.000'' 1000 ''garbage'' init_ui = init_ui"
    using line_dropping [of "''garbage''" "''12:00:00.000''" 1000 init_ui] by (simp add: t1)
  have z: "\<exists>r. map_of (tree (parse_frame ''12:00:00.000'' 1000 ''0x181 Q ZZ'' init_ui)) ''0x181''
            = Some r \<and> col_dlc r = ''Q''
          \<and> col_value r = ''Err: '' @ str_exn (ValueError_literal ''ZZ'')"
    using line_dropping [of "''0x181 Q ZZ''" "''12:00:00.000''" 1000 init_ui] d
    by (simp add: t2 canon_id_def Let_def)
  have t3: "tokens (''0x100 1 '' @ replicate 3572 CHR ''F'')
            = [''0x100'', ''1'', replicate 3572 CHR ''F'']"
    and v3: "value_text (decode ''0x100'' [replicate 3572 CHR ''F'']) = Inl ValueError_digits"
    using long_token_line by blast+
  have f: "parse_frame ''12:00:00.000'' 1000 (''0x100 1 '' @ replicate 3572 CHR ''F'') init_ui
           = init_ui"
    using line_dropping [of "''0x100 1 '' @ replicate 3572 CHR ''F''" "''12:00:00.000''" 1000
        init_ui] v3
    by (simp only: t3 Let_def) (simp add: canon_id_def)
  have l3: "2 \<le> length (tokens (''0x100 1 '' @ replicate 3572 CHR ''F''))"
    by (simp only: t3) simp
  show ?thesis using g z f i v3 l3 by (simp add: t1 t2)
qed

end
